theory Spec2Isabelle
  imports Complex_Main
begin

section \<open>JavaScript numbers and their text form\<close>

text \<open>
  The connector code builds SVG path strings from numbers with template literals and reads
  them back with a regular expression and \<open>parseFloat\<close>. What matters there is the decimal
  text of a number, so a finite number is modelled by the decimal that
  \<open>Number.prototype.toString\<close> prints: \<open>Fin m e\<close> stands for \<open>m * 10^e\<close>. The canonical form has
  a mantissa that is not a multiple of ten (zero is \<open>Fin 0 0\<close>); every operation below
  returns canonical results. \<open>NaN\<close> and the two infinities are values of their own.
  Arithmetic on finite values is exact decimal arithmetic: the rounding of binary doubles
  and the sign of zero are not modelled.
\<close>

datatype jsnum = NaN | PosInfinity | NegInfinity | Fin int int

text \<open>Normalisation: trailing zeros of the mantissa move into the exponent.\<close>

function strip10 :: "int \<Rightarrow> int \<Rightarrow> int \<times> int" where
  "strip10 m e = (if m = 0 then (0, 0)
                  else if m mod 10 = 0 then strip10 (m div 10) (e + 1)
                  else (m, e))"
  by pat_completeness auto
termination
  by (relation "measure (\<lambda>(m, e). nat \<bar>m\<bar>)") auto

declare strip10.simps [simp del]

definition fin :: "int \<Rightarrow> int \<Rightarrow> jsnum" where
  "fin m e = (case strip10 m e of (m', e') \<Rightarrow> Fin m' e')"

definition js_int :: "int \<Rightarrow> jsnum" where
  "js_int n = fin n 0"

text \<open>The mantissa of \<open>m * 10^e\<close> at the smaller exponent \<open>e0\<close>.\<close>

definition scaled :: "int \<Rightarrow> int \<Rightarrow> int \<Rightarrow> int" where
  "scaled m e e0 = m * 10 ^ nat (e - e0)"

subsection \<open>Arithmetic and comparison\<close>

text \<open>
  The operators \<open>-x\<close>, \<open>+\<close>, \<open>-\<close>, \<open>*\<close>, \<open>/\<close>, \<open>Math.abs\<close>, \<open><\<close> and \<open>!==\<close> on numbers.
  NaN propagates, and comparisons with NaN are false. A quotient is carried to
  \<open>DIV_DIGITS\<close> decimal places beyond its operands and cut there; it is exact whenever it
  terminates within that length, as every division by 2 does.
\<close>

fun js_neg :: "jsnum \<Rightarrow> jsnum" where
  "js_neg NaN = NaN"
| "js_neg PosInfinity = NegInfinity"
| "js_neg NegInfinity = PosInfinity"
| "js_neg (Fin m e) = Fin (- m) e"

fun js_add :: "jsnum \<Rightarrow> jsnum \<Rightarrow> jsnum" where
  "js_add NaN b = NaN"
| "js_add a NaN = NaN"
| "js_add PosInfinity NegInfinity = NaN"
| "js_add NegInfinity PosInfinity = NaN"
| "js_add PosInfinity b = PosInfinity"
| "js_add a PosInfinity = PosInfinity"
| "js_add NegInfinity b = NegInfinity"
| "js_add a NegInfinity = NegInfinity"
| "js_add (Fin m1 e1) (Fin m2 e2) =
     fin (scaled m1 e1 (min e1 e2) + scaled m2 e2 (min e1 e2)) (min e1 e2)"

definition js_sub :: "jsnum \<Rightarrow> jsnum \<Rightarrow> jsnum" where
  "js_sub a b = js_add a (js_neg b)"

fun js_sign :: "jsnum \<Rightarrow> int" where
  "js_sign NaN = 0"
| "js_sign PosInfinity = 1"
| "js_sign NegInfinity = - 1"
| "js_sign (Fin m e) = sgn m"


fun js_mul :: "jsnum \<Rightarrow> jsnum \<Rightarrow> jsnum" where
  "js_mul NaN b = NaN"
| "js_mul a NaN = NaN"
| "js_mul (Fin m1 e1) (Fin m2 e2) = fin (m1 * m2) (e1 + e2)"
| "js_mul a b =
     (if js_sign a * js_sign b = 0 then NaN
      else if js_sign a * js_sign b > 0 then PosInfinity else NegInfinity)"

definition DIV_DIGITS :: nat where
  "DIV_DIGITS = 20"

fun js_div :: "jsnum \<Rightarrow> jsnum \<Rightarrow> jsnum" where
  "js_div NaN b = NaN"
| "js_div a NaN = NaN"
| "js_div (Fin m1 e1) (Fin m2 e2) =
     (if m2 = 0 then (if m1 = 0 then NaN else if m1 > 0 then PosInfinity else NegInfinity)
      else fin (sgn m1 * sgn m2 * ((\<bar>m1\<bar> * 10 ^ DIV_DIGITS) div \<bar>m2\<bar>)) (e1 - e2 - int DIV_DIGITS))"
| "js_div (Fin m1 e1) b = Fin 0 0"
| "js_div a (Fin m2 e2) =
     (if js_sign a * (if m2 < 0 then - 1 else 1) > 0 then PosInfinity else NegInfinity)"
| "js_div a b = NaN"

fun js_abs :: "jsnum \<Rightarrow> jsnum" where
  "js_abs NaN = NaN"
| "js_abs PosInfinity = PosInfinity"
| "js_abs NegInfinity = PosInfinity"
| "js_abs (Fin m e) = Fin \<bar>m\<bar> e"

fun js_less :: "jsnum \<Rightarrow> jsnum \<Rightarrow> bool" where
  "js_less NaN b = False"
| "js_less a NaN = False"
| "js_less (Fin m1 e1) (Fin m2 e2) = (scaled m1 e1 (min e1 e2) < scaled m2 e2 (min e1 e2))"
| "js_less a PosInfinity = (a \<noteq> PosInfinity)"
| "js_less NegInfinity b = (b \<noteq> NegInfinity)"
| "js_less a b = False"

definition js_not_identical :: "jsnum \<Rightarrow> jsnum \<Rightarrow> bool" where
  "js_not_identical a b =
     (case (a, b) of
        (Fin m1 e1, Fin m2 e2) \<Rightarrow> scaled m1 e1 (min e1 e2) \<noteq> scaled m2 e2 (min e1 e2)
      | (NaN, _) \<Rightarrow> True
      | (_, NaN) \<Rightarrow> True
      | _ \<Rightarrow> a \<noteq> b)"

subsection \<open>Number to string\<close>

text \<open>
  \<open>Number::toString\<close> of ECMAScript (radix 10): with \<open>k\<close> digits \<open>s\<close> and \<open>n = k + e\<close>, the
  text is plain digits for \<open>k \<le> n \<le> 21\<close>, has a decimal point inside for \<open>0 < n \<le> 21\<close>,
  starts with \<open>0.\<close> for \<open>-6 < n \<le> 0\<close>, and is in exponent notation otherwise. Strings
  are lists of 8-bit characters.
\<close>

definition digit_char :: "nat \<Rightarrow> char" where
  "digit_char d = char_of (48 + d)"

definition is_digit :: "char \<Rightarrow> bool" where
  "is_digit c = (48 \<le> (of_char c :: nat) \<and> (of_char c :: nat) \<le> 57)"

definition digit_val :: "char \<Rightarrow> nat" where
  "digit_val c = of_char c - 48"

fun digits_of_nat :: "nat \<Rightarrow> string" where
  "digits_of_nat n = (if n < 10 then [digit_char n] else digits_of_nat (n div 10) @ [digit_char (n mod 10)])"

declare digits_of_nat.simps [simp del]

definition nat_of_digits :: "string \<Rightarrow> nat" where
  "nat_of_digits cs = foldl (\<lambda>a c. 10 * a + digit_val c) 0 cs"

definition positive_to_string :: "nat \<Rightarrow> int \<Rightarrow> string" where
  "positive_to_string s e =
    (let ds = digits_of_nat s; k = int (length ds); n = k + e
     in if k \<le> n \<and> n \<le> 21 then ds @ replicate (nat (n - k)) CHR ''0''
        else if 0 < n \<and> n \<le> 21 then take (nat n) ds @ ''.'' @ drop (nat n) ds
        else if - 6 < n \<and> n \<le> 0 then ''0.'' @ replicate (nat (- n)) CHR ''0'' @ ds
        else (let ex = n - 1;
                  sg = (if ex < 0 then ''-'' else ''+'');
                  exs = digits_of_nat (nat \<bar>ex\<bar>)
              in if k = 1 then ds @ ''e'' @ sg @ exs
                 else [hd ds] @ ''.'' @ tl ds @ ''e'' @ sg @ exs))"

definition number_to_string :: "jsnum \<Rightarrow> string" where
  "number_to_string v =
    (case v of
       NaN \<Rightarrow> ''NaN''
     | PosInfinity \<Rightarrow> ''Infinity''
     | NegInfinity \<Rightarrow> ''-Infinity''
     | Fin m e \<Rightarrow>
        (case strip10 m e of (m', e') \<Rightarrow>
           if m' = 0 then ''0''
           else if m' < 0 then ''-'' @ positive_to_string (nat (- m')) e'
           else positive_to_string (nat m') e'))"

subsection \<open>String to number\<close>

text \<open>
  \<open>parseFloat\<close>: skip leading white space, read the longest prefix that is a decimal
  literal (sign, \<open>Infinity\<close>, digits with an optional fraction and an optional exponent);
  the result is NaN when there is none. \<open>is_space\<close> is the class \<open>\s\<close> within 8-bit
  characters.
\<close>

definition is_space :: "char \<Rightarrow> bool" where
  "is_space c = (c \<in> set [CHR 0x09, CHR 0x0A, CHR 0x0B, CHR 0x0C, CHR 0x0D, CHR 0x20, CHR 0xA0])"

definition parse_exponent :: "string \<Rightarrow> int" where
  "parse_exponent r =
    (case r of
       [] \<Rightarrow> 0
     | c # r1 \<Rightarrow>
         if c = CHR ''e'' \<or> c = CHR ''E'' then
           (case r1 of
              [] \<Rightarrow> 0
            | d # r2 \<Rightarrow>
                if d = CHR ''-'' then
                  (if takeWhile is_digit r2 = [] then 0 else - int (nat_of_digits (takeWhile is_digit r2)))
                else if d = CHR ''+'' then
                  (if takeWhile is_digit r2 = [] then 0 else int (nat_of_digits (takeWhile is_digit r2)))
                else if takeWhile is_digit r1 = [] then 0
                else int (nat_of_digits (takeWhile is_digit r1)))
         else 0)"

definition parse_decimal :: "string \<Rightarrow> (nat \<times> int) option" where
  "parse_decimal body =
    (let ip = takeWhile is_digit body;
         r1 = dropWhile is_digit body;
         fp = (case r1 of [] \<Rightarrow> [] | c # r \<Rightarrow> if c = CHR ''.'' then takeWhile is_digit r else []);
         r2 = (case r1 of [] \<Rightarrow> [] | c # r \<Rightarrow> if c = CHR ''.'' then dropWhile is_digit r else r1)
     in if ip = [] \<and> fp = [] then None
        else Some (nat_of_digits (ip @ fp), parse_exponent r2 - int (length fp)))"

definition parseFloat :: "string \<Rightarrow> jsnum" where
  "parseFloat inputString =
    (let trimmed = dropWhile is_space inputString;
         neg = (trimmed \<noteq> [] \<and> hd trimmed = CHR ''-'');
         body = (if trimmed \<noteq> [] \<and> (hd trimmed = CHR ''-'' \<or> hd trimmed = CHR ''+'')
                 then tl trimmed else trimmed)
     in if take 8 body = ''Infinity'' then (if neg then NegInfinity else PosInfinity)
        else
          (case parse_decimal body of
             None \<Rightarrow> NaN
           | Some (m, e) \<Rightarrow> fin (if neg then - int m else int m) e))"

section \<open>GeometryEngine: nearest edge point of a card (circle renderer)\<close>











section \<open>Path strings: the connection line adjuster's parser and generator\<close>

text \<open>A path point \<open>{x, y}\<close>.\<close>

record point =
  pt_x :: jsnum
  pt_y :: jsnum

text \<open>
  \<open>parsePathData\<close> uses two regular expressions. The first,
  \<open>/[ML]\s*[\d.-]+\s*[\d.-]+/g\<close>, is matched by \<open>match_command\<close> at the head of a string:
  after the letter and white space, \<open>r1\<close> is the longest run of coordinate characters.
  If, after more white space, a second run \<open>r2\<close> follows, the match ends after it. If not,
  the matcher backtracks: giving back white space cannot help (the next character is white
  space or not a coordinate character), so the first run gives up its last character to the
  second, which needs \<open>r1\<close> to have two characters; the match is then the letter, the white
  space and \<open>r1\<close>. The result is the matched text and the rest of the string.
  \<open>match_commands\<close> is the global match: all matches from left to right, each search
  starting where the last match ended. \<open>String.prototype.match\<close> returns null when there
  is none; the source treats null and the empty array alike, and so the model returns the
  empty list.
\<close>

definition is_coord_char :: "char \<Rightarrow> bool" where
  "is_coord_char c = (is_digit c \<or> c = CHR ''.'' \<or> c = CHR ''-'')"

definition match_command :: "string \<Rightarrow> (string \<times> string) option" where
  "match_command s =
    (case s of
       [] \<Rightarrow> None
     | c # s1 \<Rightarrow>
         if c \<noteq> CHR ''M'' \<and> c \<noteq> CHR ''L'' then None
         else
           let w1 = takeWhile is_space s1; s2 = dropWhile is_space s1;
               r1 = takeWhile is_coord_char s2; s3 = dropWhile is_coord_char s2;
               w2 = takeWhile is_space s3; s4 = dropWhile is_space s3;
               r2 = takeWhile is_coord_char s4; s5 = dropWhile is_coord_char s4
           in if r1 = [] then None
              else if r2 \<noteq> [] then Some (c # w1 @ r1 @ w2 @ r2, s5)
              else if 2 \<le> length r1 then Some (c # w1 @ r1, s3)
              else None)"

lemma match_command_shorter:
  "match_command s = Some (m, rest) \<Longrightarrow> length rest < length s"
proof -
  have d: "\<And>P xs. length (dropWhile P xs) \<le> length (xs :: string)"
    by (rule length_dropWhile_le)
  assume a: "match_command s = Some (m, rest)"
  then obtain c s1 where s: "s = c # s1" by (cases s) (auto simp: match_command_def)
  let ?s2 = "dropWhile is_space s1"
  let ?s3 = "dropWhile is_coord_char ?s2"
  let ?s4 = "dropWhile is_space ?s3"
  let ?s5 = "dropWhile is_coord_char ?s4"
  have "rest = ?s5 \<or> rest = ?s3"
    using a unfolding s match_command_def Let_def by (auto split: if_splits)
  moreover have "length ?s3 \<le> length s1" using d[of is_coord_char ?s2] d[of is_space s1] by linarith
  moreover have "length ?s5 \<le> length ?s3" using d[of is_coord_char ?s4] d[of is_space ?s3] by linarith
  ultimately show ?thesis unfolding s by auto
qed

function match_commands :: "string \<Rightarrow> string list" where
  "match_commands s =
    (if s = [] then []
     else (case match_command s of
             Some (m, rest) \<Rightarrow> m # match_commands rest
           | None \<Rightarrow> match_commands (tl s)))"
  by pat_completeness auto
termination
  by (relation "measure length") (auto simp: match_command_shorter)

declare match_commands.simps [simp del]

text \<open>The second expression, \<open>/[\d.-]+/g\<close>: the maximal runs of coordinate characters.\<close>

function match_coords :: "string \<Rightarrow> string list" where
  "match_coords s =
    (if s = [] then []
     else if is_coord_char (hd s) then
       takeWhile is_coord_char s # match_coords (dropWhile is_coord_char s)
     else match_coords (tl s))"
  by pat_completeness auto
termination
proof (relation "measure length")
  show "wf (measure length)" by simp
next
  fix s :: string
  assume "s \<noteq> []" "is_coord_char (hd s)"
  then have "dropWhile is_coord_char s = dropWhile is_coord_char (tl s)"
    by (cases s) auto
  moreover have "length (dropWhile is_coord_char (tl s)) \<le> length (tl s)"
    by (rule length_dropWhile_le)
  ultimately show "(dropWhile is_coord_char s, s) \<in> measure length"
    using \<open>s \<noteq> []\<close> by (cases s) auto
next
  fix s :: string
  assume "s \<noteq> []"
  then show "(tl s, s) \<in> measure length" by (cases s) auto
qed

declare match_coords.simps [simp del]

text \<open>
  \<open>parsePathData\<close>. Its argument is a string; the falsy string is the empty one. The
  \<open>forEach\<close> over the commands is a left fold that pushes a point for every command with
  at least two coordinate runs.
\<close>

definition parsePathData :: "string \<Rightarrow> point list" where
  "parsePathData pathData =
    (if pathData = [] then []
     else
       let commands = match_commands pathData
       in if length commands = 0 then []
          else
            foldl (\<lambda>points command.
                     let coords = match_coords command
                     in if 2 \<le> length coords
                        then points @ [\<lparr>pt_x = parseFloat (coords ! 0), pt_y = parseFloat (coords ! 1)\<rparr>]
                        else points)
              [] commands)"

text \<open>\<open>generatePathFromPoints\<close>: the \<open>for\<close> loop over \<open>i = 1 .. length - 1\<close> is a left fold.\<close>

definition generatePathFromPoints :: "point list \<Rightarrow> string" where
  "generatePathFromPoints points =
    (if length points < 2 then []
     else
       foldl (\<lambda>path i.
                path @ '' L '' @ number_to_string (pt_x (points ! i)) @ '' '' @
                  number_to_string (pt_y (points ! i)))
         (''M '' @ number_to_string (pt_x (points ! 0)) @ '' '' @ number_to_string (pt_y (points ! 0)))
         [1 ..< length points])"

section \<open>ConnectorRenderer: path synthesis of the circle renderer\<close>

text \<open>
  The connection line data the renderer reads: the flag \<open>isCustom\<close>, the point list
  \<open>pathPoints\<close> of the current format and the offset list \<open>segments\<close> of the old one (the
  fields carry the prefix \<open>cl_\<close> here). A field that is absent is \<open>None\<close>.
  \<open>lastModified\<close> is carried along for the functions that copy or stamp the object.
\<close>

record segment =
  seg_type :: string
  seg_offset :: jsnum

record connectionLineData =
  cl_isCustom :: bool
  cl_pathPoints :: "point list option"
  cl_segments :: "segment list option"
  cl_lastModified :: "string option"

definition createPathFromPoints :: "point list \<Rightarrow> string" where
  "createPathFromPoints points =
    (if length points < 2 then []
     else
       foldl (\<lambda>path i.
                path @ '' L '' @ number_to_string (pt_x (points ! i)) @ '' '' @
                  number_to_string (pt_y (points ! i)))
         (''M '' @ number_to_string (pt_x (points ! 0)) @ '' '' @ number_to_string (pt_y (points ! 0)))
         [1 ..< length points])"

text \<open>
  \<open>createCustomConnectionPath\<close> (old format). The \<open>forEach\<close> threads the array \<open>points\<close>
  and the variables \<open>currentX\<close>, \<open>currentY\<close> through the segments. The array starts with
  the start point, so \<open>points[points.length - 1]\<close> is always defined.
\<close>

definition createCustomConnectionPath ::
  "jsnum \<Rightarrow> jsnum \<Rightarrow> jsnum \<Rightarrow> jsnum \<Rightarrow> segment list \<Rightarrow> string" where
  "createCustomConnectionPath startX startY endX endY segs =
    (let walked =
           foldl (\<lambda>(points, currentX, currentY) segment.
                    let currentY' = (if seg_type segment = ''horizontal''
                                     then js_add currentY (seg_offset segment) else currentY);
                        currentX' = (if seg_type segment \<noteq> ''horizontal'' \<and> seg_type segment = ''vertical''
                                     then js_add currentX (seg_offset segment) else currentX)
                    in (points @ [\<lparr>pt_x = currentX', pt_y = currentY'\<rparr>], currentX', currentY'))
             ([\<lparr>pt_x = startX, pt_y = startY\<rparr>],
              js_add startX (js_mul (js_sub endX startX) (Fin 5 (- 1))),
              startY)
             segs;
         points = fst walked;
         points1 = (if js_not_identical (pt_x (last points)) endX
                    then points @ [\<lparr>pt_x = endX, pt_y = pt_y (last points)\<rparr>] else points);
         points2 = points1 @ [\<lparr>pt_x = endX, pt_y = endY\<rparr>]
     in foldl (\<lambda>path i.
                 path @ '' L '' @ number_to_string (pt_x (points2 ! i)) @ '' '' @
                   number_to_string (pt_y (points2 ! i)))
          (''M '' @ number_to_string (pt_x (points2 ! 0)) @ '' '' @ number_to_string (pt_y (points2 ! 0)))
          [1 ..< length points2])"

text \<open>
  \<open>createConnectionPath\<close>. The argument \<open>connectionLineData\<close> is \<open>null\<close> (\<open>None\<close>) or an
  object. A custom object with a non-empty \<open>pathPoints\<close> gives the path of these points;
  else one with non-empty \<open>segments\<close> gives the old-format path; everything else falls
  through to the default path through the horizontal midpoint.
\<close>

definition createConnectionPath ::
  "jsnum \<Rightarrow> jsnum \<Rightarrow> jsnum \<Rightarrow> jsnum \<Rightarrow> connectionLineData option \<Rightarrow> string" where
  "createConnectionPath startX startY endX endY connectionLineData =
    (let midX = js_add startX (js_mul (js_sub endX startX) (Fin 5 (- 1)));
         midY = startY;
         defaultPath =
           ''M '' @ number_to_string startX @ '' '' @ number_to_string startY @
           '' L '' @ number_to_string midX @ '' '' @ number_to_string midY @
           '' L '' @ number_to_string midX @ '' '' @ number_to_string endY @
           '' L '' @ number_to_string endX @ '' '' @ number_to_string endY
     in case connectionLineData of
          None \<Rightarrow> defaultPath
        | Some d \<Rightarrow>
            if cl_isCustom d then
              (case cl_pathPoints d of
                 Some (p # ps) \<Rightarrow> createPathFromPoints (p # ps)
               | _ \<Rightarrow>
                  (case cl_segments d of
                     Some (sg # sgs) \<Rightarrow> createCustomConnectionPath startX startY endX endY (sg # sgs)
                   | _ \<Rightarrow> defaultPath))
            else defaultPath)"

section \<open>AdjustmentController: the connection line adjuster\<close>

text \<open>
  The adjuster keeps arrays of point objects and mutates the objects in place, so the
  points live in an explicit store: an array is a list of addresses, \<open>heap\<close> maps an address
  to the object's fields, and \<open>next_addr\<close> is the first unused address. The state also
  holds what the adjuster reads and writes outside itself: the children of the handles
  group and the \<open>path\<close> elements of the renderer's connections group, each a pair of its
  \<open>data-record-id\<close> and its \<open>d\<close> attribute (an element without the attribute has the
  empty, falsy string).
\<close>

type_synonym addr = nat

record handle =
  h_x :: jsnum
  h_y :: jsnum
  h_width :: jsnum
  h_height :: jsnum
  h_recordId :: string
  h_segmentIndex :: nat
  h_isHorizontal :: bool
  h_isVertical :: bool
  h_cursor :: string

record adjuster_state =
  selectedRecordId :: "string option"
  isDragging :: bool
  dragTarget :: "nat option"
  originalPathPoints :: "addr list option"
  handlesGroup :: "handle list"
  heap :: "addr \<Rightarrow> point"
  next_addr :: addr
  connectionsGroup :: "(string \<times> string) list"

text \<open>\<open>querySelector\<close> finds the first element with the record id; \<open>setAttribute\<close> writes to it.\<close>

definition querySelector :: "(string \<times> string) list \<Rightarrow> string \<Rightarrow> string option" where
  "querySelector elements recordId = map_of elements recordId"

fun setAttribute_d :: "string \<Rightarrow> string \<Rightarrow> (string \<times> string) list \<Rightarrow> (string \<times> string) list" where
  "setAttribute_d recordId v [] = []"
| "setAttribute_d recordId v ((k, d) # rest) =
     (if k = recordId then (k, v) # rest else (k, d) # setAttribute_d recordId v rest)"

text \<open>Fresh objects for the points an expression such as \<open>parsePathData\<close> creates.\<close>

definition alloc_points :: "point list \<Rightarrow> adjuster_state \<Rightarrow> addr list \<times> adjuster_state" where
  "alloc_points ps s =
    ([next_addr s ..< next_addr s + length ps],
     s\<lparr>heap := (\<lambda>a. if next_addr s \<le> a \<and> a < next_addr s + length ps
                      then ps ! (a - next_addr s) else heap s a),
       next_addr := next_addr s + length ps\<rparr>)"

definition hideControlHandles :: "adjuster_state \<Rightarrow> adjuster_state" where
  "hideControlHandles s =
     s\<lparr>handlesGroup := [], selectedRecordId := None, originalPathPoints := None\<rparr>"

text \<open>The classification of a segment, as \<open>createSegmentControlHandles\<close> computes it.\<close>

definition segment_isHorizontal :: "point \<Rightarrow> point \<Rightarrow> bool" where
  "segment_isHorizontal startPoint endPoint =
     js_less (js_abs (js_sub (pt_y startPoint) (pt_y endPoint))) (js_int 5)"

definition segment_isVertical :: "point \<Rightarrow> point \<Rightarrow> bool" where
  "segment_isVertical startPoint endPoint =
     js_less (js_abs (js_sub (pt_x startPoint) (pt_x endPoint))) (js_int 5)"

definition createControlHandle ::
  "jsnum \<Rightarrow> jsnum \<Rightarrow> nat \<Rightarrow> string \<Rightarrow> bool \<Rightarrow> bool \<Rightarrow> handle" where
  "createControlHandle x y segmentIndex recordId isHorizontal isVertical =
     \<lparr>h_x = js_sub x (js_int 4), h_y = js_sub y (js_int 4),
      h_width = js_int 8, h_height = js_int 8,
      h_recordId = recordId, h_segmentIndex = segmentIndex,
      h_isHorizontal = isHorizontal, h_isVertical = isVertical,
      h_cursor = (if isHorizontal then ''ns-resize'' else if isVertical then ''ew-resize'' else ''move'')\<rparr>"

definition createSegmentControlHandles ::
  "addr list \<Rightarrow> string \<Rightarrow> adjuster_state \<Rightarrow> adjuster_state" where
  "createSegmentControlHandles pathPoints recordId s =
     s\<lparr>handlesGroup := handlesGroup s @
          map (\<lambda>i. let startPoint = heap s (pathPoints ! i);
                       endPoint = heap s (pathPoints ! (i + 1));
                       midX = js_div (js_add (pt_x startPoint) (pt_x endPoint)) (js_int 2);
                       midY = js_div (js_add (pt_y startPoint) (pt_y endPoint)) (js_int 2)
                   in createControlHandle midX midY i recordId
                        (segment_isHorizontal startPoint endPoint)
                        (segment_isVertical startPoint endPoint))
            [0 ..< length pathPoints - 1]\<rparr>"

text \<open>
  \<open>showControlHandles\<close>. The assignments are kept in the order of the source: the record
  id is stored first, and \<open>hideControlHandles\<close> runs after it. \<open>[...pathPoints]\<close> copies the
  array, not the point objects: the copy is the same list of addresses.
\<close>

definition showControlHandles :: "string \<Rightarrow> adjuster_state \<Rightarrow> adjuster_state" where
  "showControlHandles recordId s =
    (let s1 = s\<lparr>selectedRecordId := Some recordId\<rparr>;
         s2 = hideControlHandles s1
     in case querySelector (connectionsGroup s2) recordId of
          None \<Rightarrow> s2
        | Some pathData \<Rightarrow>
            if pathData = [] then s2
            else
              let (pathPoints, s3) = alloc_points (parsePathData pathData) s2
              in if length pathPoints < 2 then s3
                 else createSegmentControlHandles pathPoints recordId
                        (s3\<lparr>originalPathPoints := Some pathPoints\<rparr>))"

text \<open>
  \<open>updateConnectionPath\<close>. \<open>[...this.originalPathPoints]\<close> is again the same list of
  addresses; the two assignments to \<open>.y\<close> (or \<open>.x\<close>) write to the store one after the
  other. The segment index comes from \<open>parseInt\<close> and is an integer.
\<close>

definition set_y :: "addr \<Rightarrow> jsnum \<Rightarrow> (addr \<Rightarrow> point) \<Rightarrow> (addr \<Rightarrow> point)" where
  "set_y a v h = h(a := (h a)\<lparr>pt_y := v\<rparr>)"

definition set_x :: "addr \<Rightarrow> jsnum \<Rightarrow> (addr \<Rightarrow> point) \<Rightarrow> (addr \<Rightarrow> point)" where
  "set_x a v h = h(a := (h a)\<lparr>pt_x := v\<rparr>)"

definition updateConnectionPath ::
  "string \<Rightarrow> int \<Rightarrow> jsnum \<Rightarrow> jsnum \<Rightarrow> bool \<Rightarrow> bool \<Rightarrow> adjuster_state \<Rightarrow> adjuster_state" where
  "updateConnectionPath recordId segmentIndex newX newY isHorizontal isVertical s =
    (case querySelector (connectionsGroup s) recordId of
       None \<Rightarrow> s
     | Some d \<Rightarrow>
        (case originalPathPoints s of
           None \<Rightarrow> s
         | Some original \<Rightarrow>
            let pathPoints = original
            in if 0 \<le> segmentIndex \<and> segmentIndex < int (length pathPoints) - 1 then
                 let i = nat segmentIndex;
                     heap' =
                       (if isHorizontal then
                          set_y (pathPoints ! (i + 1)) newY (set_y (pathPoints ! i) newY (heap s))
                        else if isVertical then
                          set_x (pathPoints ! (i + 1)) newX (set_x (pathPoints ! i) newX (heap s))
                        else heap s);
                     newPath = generatePathFromPoints (map heap' pathPoints)
                 in s\<lparr>heap := heap',
                      connectionsGroup := setAttribute_d recordId newPath (connectionsGroup s)\<rparr>
               else s))"



section \<open>Record manager: persisted connection line data\<close>

text \<open>
  Loaded records are plain JavaScript data of any shape, so the validation pass is modelled
  on untyped values. An object is an association list of its own properties. Reading a
  property of an object that lacks it, or of a primitive, gives \<open>undefined\<close>; every read in
  the functions below is guarded by a truthiness test, so none is on \<open>null\<close> or
  \<open>undefined\<close>.
\<close>

datatype jsval =
    JUndefined
  | JNull
  | JBool bool
  | JNum jsnum
  | JStr string
  | JArr "jsval list"
  | JObj "(string \<times> jsval) list"

fun truthy :: "jsval \<Rightarrow> bool" where
  "truthy JUndefined = False"
| "truthy JNull = False"
| "truthy (JBool b) = b"
| "truthy (JNum NaN) = False"
| "truthy (JNum (Fin m e)) = (m \<noteq> 0)"
| "truthy (JNum n) = True"
| "truthy (JStr s) = (s \<noteq> [])"
| "truthy (JArr xs) = True"
| "truthy (JObj fs) = True"

fun typeof :: "jsval \<Rightarrow> string" where
  "typeof JUndefined = ''undefined''"
| "typeof JNull = ''object''"
| "typeof (JBool b) = ''boolean''"
| "typeof (JNum n) = ''number''"
| "typeof (JStr s) = ''string''"
| "typeof (JArr xs) = ''object''"
| "typeof (JObj fs) = ''object''"

fun isArray :: "jsval \<Rightarrow> bool" where
  "isArray (JArr xs) = True"
| "isArray v = False"

fun get_prop :: "jsval \<Rightarrow> string \<Rightarrow> jsval" where
  "get_prop (JObj fs) k = (case map_of fs k of Some v \<Rightarrow> v | None \<Rightarrow> JUndefined)"
| "get_prop (JArr xs) k = (if k = ''length'' then JNum (js_int (int (length xs))) else JUndefined)"
| "get_prop (JStr s) k = (if k = ''length'' then JNum (js_int (int (length s))) else JUndefined)"
| "get_prop v k = JUndefined"

fun delete_prop :: "string \<Rightarrow> jsval \<Rightarrow> jsval" where
  "delete_prop k (JObj fs) = JObj (filter (\<lambda>kv. fst kv \<noteq> k) fs)"
| "delete_prop k v = v"

fun set_prop :: "string \<Rightarrow> jsval \<Rightarrow> jsval \<Rightarrow> jsval" where
  "set_prop k v (JObj fs) = JObj (filter (\<lambda>kv. fst kv \<noteq> k) fs @ [(k, v)])"
| "set_prop k v w = w"

text \<open>\<open>validateConnectionLineData\<close>; the loop over the points returns at the first bad one.\<close>

fun points_valid :: "jsval list \<Rightarrow> bool" where
  "points_valid [] = True"
| "points_valid (point # rest) =
     (if \<not> truthy point \<or> typeof (get_prop point ''x'') \<noteq> ''number'' \<or>
         typeof (get_prop point ''y'') \<noteq> ''number''
      then False else points_valid rest)"

definition validateConnectionLineData :: "jsval \<Rightarrow> string \<Rightarrow> bool" where
  "validateConnectionLineData connectionLineData recordId =
    (if \<not> truthy connectionLineData \<or> typeof connectionLineData \<noteq> ''object'' then False
     else if \<not> truthy (get_prop connectionLineData ''pathPoints'') \<or>
             \<not> isArray (get_prop connectionLineData ''pathPoints'') then False
     else (case get_prop connectionLineData ''pathPoints'' of
             JArr pts \<Rightarrow> if length pts < 2 then False else points_valid pts
           | _ \<Rightarrow> False))"

text \<open>
  The manager's state: the map of records in insertion order, and \<open>window.storageManager\<close>,
  which is absent (\<open>None\<close>) or counts the calls of \<open>triggerAutoSave\<close> it has received.
  \<open>new Date().toISOString()\<close> is the parameter \<open>now\<close>.
\<close>

record manager_state =
  records :: "(string \<times> jsval) list"
  storageManager :: "nat option"

definition triggerAutoSave :: "nat option \<Rightarrow> nat option" where
  "triggerAutoSave sm = map_option Suc sm"

fun cleanup_records ::
  "string \<Rightarrow> (string \<times> jsval) list \<Rightarrow> nat \<Rightarrow> (string \<times> jsval) list \<times> nat" where
  "cleanup_records now [] cleanedCount = ([], cleanedCount)"
| "cleanup_records now ((recordId, r) # rest) cleanedCount =
     (if truthy (get_prop r ''connectionLine'') \<and>
         truthy (get_prop (get_prop r ''connectionLine'') ''isCustom'') then
        (if \<not> validateConnectionLineData (get_prop r ''connectionLine'') recordId then
           (let (rest', n) = cleanup_records now rest (cleanedCount + 1)
            in ((recordId, set_prop ''updatedAt'' (JStr now) (delete_prop ''connectionLine'' r)) # rest', n))
         else
           (let (rest', n) = cleanup_records now rest cleanedCount
            in ((recordId, r) # rest', n)))
      else
        (let (rest', n) = cleanup_records now rest cleanedCount
         in ((recordId, r) # rest', n)))"

definition cleanupInvalidConnectionLines :: "string \<Rightarrow> manager_state \<Rightarrow> manager_state" where
  "cleanupInvalidConnectionLines now st =
    (let (recs, cleanedCount) = cleanup_records now (records st) 0
     in if cleanedCount > 0
        then st\<lparr>records := recs, storageManager := triggerAutoSave (storageManager st)\<rparr>
        else st\<lparr>records := recs\<rparr>)"

fun read_string :: "jsval \<Rightarrow> string" where
  "read_string (JStr s) = s"
| "read_string v = []"

text \<open>
  The part of the manager's \<open>drawConnectionLine\<close> that chooses the data handed to the
  renderer: the record's connection line if it is custom and valid, \<open>null\<close> otherwise. It
  returns the data, the record and the storage manager.
\<close>

definition drawLine_connectionLineData ::
  "string \<Rightarrow> jsval \<Rightarrow> nat option \<Rightarrow> jsval \<times> jsval \<times> nat option" where
  "drawLine_connectionLineData now r sm =
    (if truthy (get_prop r ''connectionLine'') \<and>
        truthy (get_prop (get_prop r ''connectionLine'') ''isCustom'') then
       (if validateConnectionLineData (get_prop r ''connectionLine'') (read_string (get_prop r ''id''))
        then (get_prop r ''connectionLine'', r, sm)
        else (JNull, set_prop ''updatedAt'' (JStr now) (delete_prop ''connectionLine'' r),
              triggerAutoSave sm))
     else (JNull, r, sm))"

text \<open>
  The renderer reads the fields of the object it is given. \<open>read_connectionLineData\<close>
  collects what it reads: for data that passed the validation these are numbers.
\<close>

fun read_number :: "jsval \<Rightarrow> jsnum" where
  "read_number (JNum n) = n"
| "read_number v = NaN"

fun read_array :: "jsval \<Rightarrow> jsval list option" where
  "read_array (JArr xs) = Some xs"
| "read_array v = None"

definition read_connectionLineData :: "jsval \<Rightarrow> connectionLineData option" where
  "read_connectionLineData v =
    (if \<not> truthy v then None
     else Some \<lparr>cl_isCustom = truthy (get_prop v ''isCustom''),
                cl_pathPoints = map_option
                  (map (\<lambda>p. \<lparr>pt_x = read_number (get_prop p ''x''), pt_y = read_number (get_prop p ''y'')\<rparr>))
                  (read_array (get_prop v ''pathPoints'')),
                cl_segments = map_option
                  (map (\<lambda>g. \<lparr>seg_type = read_string (get_prop g ''type''),
                             seg_offset = read_number (get_prop g ''offset'')\<rparr>))
                  (read_array (get_prop v ''segments'')),
                cl_lastModified = None\<rparr>)"


section \<open>Vocabulary of the properties\<close>

text \<open>
  A number is canonical when its mantissa carries no trailing zero. It is plain when it is
  finite, canonical and printed without an exponent: zero, or of absolute value at least
  \<open>10^-6\<close> and below \<open>10^21\<close>.
\<close>

definition canonical :: "int \<Rightarrow> int \<Rightarrow> bool" where
  "canonical m e = ((m = 0 \<and> e = 0) \<or> m mod 10 \<noteq> 0)"

definition plain_number :: "jsnum \<Rightarrow> bool" where
  "plain_number v =
    (case v of
       Fin m e \<Rightarrow>
         canonical m e \<and>
         (m = 0 \<or> (- 6 < int (length (digits_of_nat (nat \<bar>m\<bar>))) + e \<and>
                    int (length (digits_of_nat (nat \<bar>m\<bar>))) + e \<le> 21))
     | _ \<Rightarrow> False)"

definition plain_point :: "point \<Rightarrow> bool" where
  "plain_point p = (plain_number (pt_x p) \<and> plain_number (pt_y p))"

text \<open>The text of one path command, and one step of the parser's loop over the commands.\<close>

definition command_string :: "char \<Rightarrow> point \<Rightarrow> string" where
  "command_string c p =
     c # CHR '' '' # number_to_string (pt_x p) @ CHR '' '' # number_to_string (pt_y p)"

definition parse_step :: "point list \<Rightarrow> string \<Rightarrow> point list" where
  "parse_step points command =
     (let coords = match_coords command
      in if 2 \<le> length coords
         then points @ [\<lparr>pt_x = parseFloat (coords ! 0), pt_y = parseFloat (coords ! 1)\<rparr>]
         else points)"

text \<open>
  Vocabulary for the persisted data. A record is custom when its \<open>connectionLine\<close> and the
  line's \<open>isCustom\<close> are truthy. The path points of a connection line are corrupt when
  \<open>pathPoints\<close> is missing or not an array, has fewer than two entries, or has an entry whose
  \<open>x\<close> or \<open>y\<close> is not of type number. An entry is a number point when it is an object
  whose \<open>x\<close> and \<open>y\<close> are numbers of any kind, NaN and the infinities included.
\<close>

definition is_custom :: "jsval \<Rightarrow> bool" where
  "is_custom r =
     (truthy (get_prop r ''connectionLine'') \<and>
      truthy (get_prop (get_prop r ''connectionLine'') ''isCustom''))"

definition corrupt_pathPoints :: "jsval \<Rightarrow> bool" where
  "corrupt_pathPoints cl =
     (case get_prop cl ''pathPoints'' of
        JArr pts \<Rightarrow>
          length pts < 2 \<or>
          list_ex (\<lambda>p. typeof (get_prop p ''x'') \<noteq> ''number'' \<or>
                       typeof (get_prop p ''y'') \<noteq> ''number'') pts
      | _ \<Rightarrow> True)"

fun number_point :: "jsval \<Rightarrow> bool" where
  "number_point (JObj fs) =
     (case (map_of fs ''x'', map_of fs ''y'') of
        (Some (JNum a), Some (JNum b)) \<Rightarrow> True
      | _ \<Rightarrow> False)"
| "number_point v = False"

text \<open>What the cleanup does to one record, and the record after its connection line is deleted.\<close>

definition without_connectionLine :: "string \<Rightarrow> jsval \<Rightarrow> jsval" where
  "without_connectionLine now r = set_prop ''updatedAt'' (JStr now) (delete_prop ''connectionLine'' r)"

definition needs_cleanup :: "string \<times> jsval \<Rightarrow> bool" where
  "needs_cleanup entry =
     (is_custom (snd entry) \<and>
      \<not> validateConnectionLineData (get_prop (snd entry) ''connectionLine'') (fst entry))"

text \<open>
  Vocabulary for the adjuster. \<open>new_adjuster\<close> is the state after the constructor, over the
  given connection lines of the renderer. \<open>baseline_points\<close> reads the cached original path
  points through the store, \<open>rendered_points\<close> reads a record's path off the screen as the
  adjuster does.
\<close>

definition new_adjuster :: "(string \<times> string) list \<Rightarrow> adjuster_state" where
  "new_adjuster elements =
     \<lparr>selectedRecordId = None, isDragging = False, dragTarget = None,
      originalPathPoints = None, handlesGroup = [],
      heap = (\<lambda>a. \<lparr>pt_x = NaN, pt_y = NaN\<rparr>), next_addr = 0,
      connectionsGroup = elements\<rparr>"

definition baseline_points :: "adjuster_state \<Rightarrow> point list option" where
  "baseline_points s = map_option (map (heap s)) (originalPathPoints s)"









text \<open>
  Three adjuster states used as examples. In each the record \<open>r1\<close> has just been selected.
  \<open>elbow_adjuster\<close>: its connection line is the default path from (0,0) to (100,50).
  \<open>step_adjuster\<close>: its connection line runs down, across at height 30 and down again.
  \<open>level_card_adjuster\<close>: its connection line is the default path from (0,0) to a card
  edge three pixels lower, (100,3); \<open>level_card_dragged\<close> is that state after the handle
  of the short middle segment is dragged to height 30, the event passing on the handle's own
  segment index and flags and the handle's midpoint 50 as \<open>x\<close>.
\<close>

definition elbow_adjuster :: adjuster_state where
  "elbow_adjuster =
     showControlHandles ''r1'' (new_adjuster [(''r1'', ''M 0 0 L 50 0 L 50 50 L 100 50'')])"




section \<open>Properties of the geometry engine\<close>

subsection \<open>Sorting: the head of a stable sort\<close>







subsection \<open>The four edge candidates\<close>














subsection \<open>Nearest edge point\<close>



subsection \<open>Forced connection point\<close>







section \<open>Properties of the text form of numbers and paths\<close>

lemma digit_char_props:
  assumes "d < 10"
  shows "is_digit (digit_char d)" "digit_val (digit_char d) = d"
    "digit_char d \<noteq> CHR ''.''" "digit_char d \<noteq> CHR ''-''" "\<not> is_space (digit_char d)"
proof -
  have oc: "(of_char (digit_char d) :: nat) = 48 + d"
    using assms by (simp add: digit_char_def)
  show "is_digit (digit_char d)" using assms oc by (simp add: is_digit_def)
  show "digit_val (digit_char d) = d" using oc by (simp add: digit_val_def)
  have "(of_char (digit_char d) :: nat) \<noteq> of_char CHR ''.''" using oc by simp
  then show "digit_char d \<noteq> CHR ''.''" by metis
  have "(of_char (digit_char d) :: nat) \<noteq> of_char CHR ''-''" using oc by simp
  then show "digit_char d \<noteq> CHR ''-''" by metis
  have "\<forall>c \<in> set [CHR 0x09, CHR 0x0A, CHR 0x0B, CHR 0x0C, CHR 0x0D, CHR 0x20, CHR 0xA0]. (of_char (digit_char d) :: nat) \<noteq> of_char c"
    using oc assms by simp
  then show "\<not> is_space (digit_char d)" unfolding is_space_def by metis
qed

lemma digits_of_nat_all_digits: "list_all is_digit (digits_of_nat n)"
proof (induction n rule: digits_of_nat.induct)
  case (1 n)
  show ?case
  proof (cases "n < 10")
    case True
    then show ?thesis by (subst digits_of_nat.simps) (simp add: digit_char_props)
  next
    case False
    then show ?thesis using 1 by (subst digits_of_nat.simps) (simp add: digit_char_props)
  qed
qed

lemma digits_of_nat_nonempty: "digits_of_nat n \<noteq> []"
  by (subst digits_of_nat.simps) simp

lemma nat_of_digits_snoc: "nat_of_digits (cs @ [c]) = 10 * nat_of_digits cs + digit_val c"
  by (simp add: nat_of_digits_def)

lemma nat_of_digits_append:
  "nat_of_digits (xs @ ys) = nat_of_digits xs * 10 ^ length ys + nat_of_digits ys"
proof (induction ys rule: rev_induct)
  case Nil
  show ?case by (simp add: nat_of_digits_def)
next
  case (snoc y ys)
  have "nat_of_digits (xs @ ys @ [y]) = 10 * nat_of_digits (xs @ ys) + digit_val y"
    using nat_of_digits_snoc[of "xs @ ys" y] by simp
  then show ?case using snoc nat_of_digits_snoc[of ys y] by (simp add: algebra_simps)
qed

lemma nat_of_digits_digits_of_nat: "nat_of_digits (digits_of_nat n) = n"
proof (induction n rule: digits_of_nat.induct)
  case (1 n)
  show ?case
  proof (cases "n < 10")
    case True
    then show ?thesis
      by (subst digits_of_nat.simps) (simp add: nat_of_digits_def digit_char_props)
  next
    case False
    then show ?thesis using 1
      by (subst digits_of_nat.simps) (simp add: nat_of_digits_snoc digit_char_props)
  qed
qed

lemma nat_of_digits_zeros: "nat_of_digits (replicate z CHR ''0'') = 0"
proof (induction z)
  case 0
  show ?case by (simp add: nat_of_digits_def)
next
  case (Suc z)
  have "nat_of_digits ([CHR ''0''] @ replicate z CHR ''0'') = 0"
    unfolding nat_of_digits_append using Suc by (simp add: nat_of_digits_def digit_val_def)
  then show ?case by simp
qed

lemma strip10_keep: "m mod 10 \<noteq> 0 \<Longrightarrow> strip10 m e = (m, e)"
  by (subst strip10.simps) auto

lemma strip10_pow: "m mod 10 \<noteq> 0 \<Longrightarrow> strip10 (m * 10 ^ z) e = (m, e + int z)"
proof (induction z arbitrary: e)
  case 0
  then show ?case by (simp add: strip10_keep)
next
  case (Suc z)
  have nz: "m \<noteq> 0" using Suc.prems by auto
  have "strip10 (m * 10 ^ Suc z) e = strip10 (m * 10 ^ z) (e + 1)"
    using nz by (subst strip10.simps) simp
  then show ?case using Suc.IH[OF Suc.prems, of "e + 1"] by simp
qed


lemma digits_set: "c \<in> set (digits_of_nat n) \<Longrightarrow> is_digit c"
  using digits_of_nat_all_digits[of n] by (simp add: list_all_iff)

lemma not_digit_dot: "\<not> is_digit CHR ''.''"
  by (simp add: is_digit_def)

lemma is_digit_zero: "is_digit CHR ''0''"
  by (simp add: is_digit_def)

lemma parse_exponent_Nil: "parse_exponent [] = 0"
  by (simp add: parse_exponent_def)

lemma parse_decimal_digits:
  assumes "\<forall>c \<in> set ip. is_digit c" "ip \<noteq> []"
  shows "parse_decimal ip = Some (nat_of_digits ip, 0)"
proof -
  have t: "takeWhile is_digit ip = ip" using assms(1) by (simp add: takeWhile_eq_all_conv)
  have d: "dropWhile is_digit ip = []" using assms(1) by simp
  show ?thesis unfolding parse_decimal_def Let_def t d using assms(2)
    by (simp add: parse_exponent_Nil)
qed

lemma parse_decimal_dotted:
  assumes "\<forall>c \<in> set ip. is_digit c" "\<forall>c \<in> set fp. is_digit c" "ip \<noteq> []"
  shows "parse_decimal (ip @ CHR ''.'' # fp) = Some (nat_of_digits (ip @ fp), - int (length fp))"
proof -
  have t: "takeWhile is_digit (ip @ CHR ''.'' # fp) = ip"
    using assms(1) not_digit_dot by (simp add: takeWhile_append2)
  have d: "dropWhile is_digit (ip @ CHR ''.'' # fp) = CHR ''.'' # fp"
    using assms(1) not_digit_dot by (simp add: dropWhile_append2)
  have t2: "takeWhile is_digit fp = fp" using assms(2) by (simp add: takeWhile_eq_all_conv)
  have d2: "dropWhile is_digit fp = []" using assms(2) by simp
  show ?thesis unfolding parse_decimal_def Let_def t d using assms(3)
    by (simp add: t2 d2 parse_exponent_Nil)
qed

lemma positive_to_string_cases:
  assumes "- 6 < int (length (digits_of_nat s)) + e" "int (length (digits_of_nat s)) + e \<le> 21"
  shows "positive_to_string s e =
    (if 0 \<le> e then digits_of_nat s @ replicate (nat e) CHR ''0''
     else if 0 < int (length (digits_of_nat s)) + e
       then take (nat (int (length (digits_of_nat s)) + e)) (digits_of_nat s) @ CHR ''.'' #
            drop (nat (int (length (digits_of_nat s)) + e)) (digits_of_nat s)
     else CHR ''0'' # CHR ''.'' # replicate (nat (- (int (length (digits_of_nat s)) + e))) CHR ''0'' @ digits_of_nat s)"
  using assms unfolding positive_to_string_def Let_def by auto

lemma parse_decimal_positive:
  assumes "- 6 < int (length (digits_of_nat s)) + e" "int (length (digits_of_nat s)) + e \<le> 21"
  shows "\<exists>M E z. parse_decimal (positive_to_string s e) = Some (M, E) \<and>
            M = s * 10 ^ z \<and> E + int z = e"
proof -
  let ?ds = "digits_of_nat s"
  let ?n = "int (length ?ds) + e"
  have dig: "\<forall>c \<in> set ?ds. is_digit c" using digits_set by blast
  have ne: "?ds \<noteq> []" by (rule digits_of_nat_nonempty)
  consider (a) "0 \<le> e" | (b) "e < 0" "0 < ?n" | (c) "e < 0" "?n \<le> 0" by linarith
  then show ?thesis
  proof cases
    case a
    let ?str = "?ds @ replicate (nat e) CHR ''0''"
    have str: "positive_to_string s e = ?str"
      using positive_to_string_cases[OF assms] a by simp
    have all: "\<forall>c \<in> set ?str. is_digit c" using dig is_digit_zero by auto
    have "parse_decimal ?str = Some (nat_of_digits ?str, 0)"
      by (rule parse_decimal_digits[OF all]) (use ne in simp)
    moreover have "nat_of_digits ?str = s * 10 ^ nat e"
      by (simp add: nat_of_digits_append nat_of_digits_digits_of_nat nat_of_digits_zeros)
    ultimately show ?thesis using str a by (intro exI[of _ "s * 10 ^ nat e"] exI[of _ 0] exI[of _ "nat e"]) simp
  next
    case b
    let ?ip = "take (nat ?n) ?ds"
    let ?fp = "drop (nat ?n) ?ds"
    have str: "positive_to_string s e = ?ip @ CHR ''.'' # ?fp"
      using positive_to_string_cases[OF assms] b by simp
    have i: "\<forall>c \<in> set ?ip. is_digit c" using dig by (meson in_set_takeD)
    have f: "\<forall>c \<in> set ?fp. is_digit c" using dig by (meson in_set_dropD)
    have ine: "?ip \<noteq> []" using b ne by simp
    have "parse_decimal (?ip @ CHR ''.'' # ?fp) = Some (nat_of_digits (?ip @ ?fp), - int (length ?fp))"
      by (rule parse_decimal_dotted[OF i f ine])
    moreover have "nat_of_digits (?ip @ ?fp) = s" by (simp add: nat_of_digits_digits_of_nat)
    moreover have "- int (length ?fp) = e" using b by simp
    ultimately show ?thesis using str by (intro exI[of _ s] exI[of _ e] exI[of _ 0]) simp
  next
    case c
    let ?z = "replicate (nat (- ?n)) CHR ''0''"
    let ?fp = "?z @ ?ds"
    have str: "positive_to_string s e = [CHR ''0''] @ CHR ''.'' # ?fp"
      using positive_to_string_cases[OF assms] c by simp
    have i: "\<forall>c \<in> set [CHR ''0'']. is_digit c" using is_digit_zero by simp
    have f: "\<forall>c \<in> set ?fp. is_digit c" using dig is_digit_zero by auto
    have "parse_decimal ([CHR ''0''] @ CHR ''.'' # ?fp) = Some (nat_of_digits ([CHR ''0''] @ ?fp), - int (length ?fp))"
      by (rule parse_decimal_dotted[OF i f]) simp
    moreover have "nat_of_digits ([CHR ''0''] @ ?fp) = s"
    proof -
      have z: "nat_of_digits [CHR ''0''] = 0" by (simp add: nat_of_digits_def digit_val_def)
      have "nat_of_digits ([CHR ''0''] @ ?fp) = nat_of_digits ?fp"
        unfolding nat_of_digits_append[of "[CHR ''0'']" ?fp] z by simp
      also have "\<dots> = s"
        unfolding nat_of_digits_append[of ?z ?ds] nat_of_digits_zeros nat_of_digits_digits_of_nat
        by simp
      finally show ?thesis .
    qed
    moreover have "- int (length ?fp) = e" using c by simp
    ultimately show ?thesis using str by (intro exI[of _ s] exI[of _ e] exI[of _ 0]) simp
  qed
qed

lemma positive_to_string_chars:
  assumes "- 6 < int (length (digits_of_nat s)) + e" "int (length (digits_of_nat s)) + e \<le> 21"
  shows "positive_to_string s e \<noteq> []"
    "is_digit (hd (positive_to_string s e))"
    "\<forall>c \<in> set (positive_to_string s e). is_digit c \<or> c = CHR ''.''"
proof -
  let ?ds = "digits_of_nat s"
  let ?n = "int (length ?ds) + e"
  have dig: "\<forall>c \<in> set ?ds. is_digit c" using digits_set by blast
  have ne: "?ds \<noteq> []" by (rule digits_of_nat_nonempty)
  have hd: "is_digit (hd ?ds)" using dig ne by simp
  note str = positive_to_string_cases[OF assms]
  show "positive_to_string s e \<noteq> []" unfolding str using ne by simp
  show "is_digit (hd (positive_to_string s e))"
    unfolding str using ne hd is_digit_zero by (simp add: hd_append)
  show "\<forall>c \<in> set (positive_to_string s e). is_digit c \<or> c = CHR ''.''"
    unfolding str using dig is_digit_zero by (auto dest: in_set_takeD in_set_dropD)
qed

lemma is_digit_not_others:
  assumes "is_digit c"
  shows "\<not> is_space c" "c \<noteq> CHR ''-''" "c \<noteq> CHR ''+''" "c \<noteq> CHR ''I''" "c \<noteq> CHR ''.''"
    "c \<noteq> CHR ''M''" "c \<noteq> CHR ''L''"
  using assms unfolding is_digit_def is_space_def by auto

lemma fin_pow: "m mod 10 \<noteq> 0 \<Longrightarrow> fin (m * 10 ^ z) E = Fin m (E + int z)"
  by (simp add: fin_def strip10_pow)

lemma neg_mod10: "(m :: int) mod 10 \<noteq> 0 \<Longrightarrow> (- m) mod 10 \<noteq> 0"
  by presburger

lemma parseFloat_positive_to_string:
  assumes "0 < m" "m mod 10 \<noteq> 0"
    "- 6 < int (length (digits_of_nat (nat m))) + e" "int (length (digits_of_nat (nat m))) + e \<le> 21"
  shows "parseFloat (positive_to_string (nat m) e) = Fin m e"
    "parseFloat (CHR ''-'' # positive_to_string (nat m) e) = Fin (- m) e"
proof -
  define str where "str = positive_to_string (nat m) e"
  note ch = positive_to_string_chars[OF assms(3,4), folded str_def]
  obtain c cs where str: "str = c # cs" using ch(1) by (cases str) auto
  have c: "is_digit c" using ch(2) str by simp
  note nc = is_digit_not_others[OF c]
  obtain M E z where p: "parse_decimal str = Some (M, E)" "M = nat m * 10 ^ z" "E + int z = e"
    using parse_decimal_positive[OF assms(3,4)] unfolding str_def by blast
  have M: "int M = m * 10 ^ z" using p(2) assms(1) by simp
  have inf: "take 8 str \<noteq> ''Infinity''"
  proof
    assume "take 8 str = ''Infinity''"
    then have "hd (take 8 str) = CHR ''I''" by simp
    then show False using str nc(4) by simp
  qed
  have tr: "dropWhile is_space str = str" using str nc(1) by simp
  have h: "str \<noteq> []" "hd str \<noteq> CHR ''-''" "hd str \<noteq> CHR ''+''" using str nc by simp_all
  have "parseFloat str = fin (int M) E"
    unfolding parseFloat_def Let_def tr using inf p(1) h by simp
  then show "parseFloat (positive_to_string (nat m) e) = Fin m e"
    unfolding M str_def[symmetric] using fin_pow[OF assms(2), of z E] p(3) by simp
  have sp: "dropWhile is_space (CHR ''-'' # str) = CHR ''-'' # str" by (simp add: is_space_def)
  have "parseFloat (CHR ''-'' # str) = fin (- int M) E"
    unfolding parseFloat_def Let_def sp using inf p(1) by simp
  moreover have "- int M = (- m) * 10 ^ z" using M by simp
  ultimately show "parseFloat (CHR ''-'' # positive_to_string (nat m) e) = Fin (- m) e"
    unfolding str_def[symmetric] using fin_pow[OF neg_mod10[OF assms(2)], of z E] p(3) by simp
qed

lemma strip10_canonical: "canonical m e \<Longrightarrow> strip10 m e = (m, e)"
  unfolding canonical_def by (subst strip10.simps) auto

lemma parseFloat_zero: "parseFloat ''0'' = Fin 0 0"
  by code_simp

lemma parseFloat_number_to_string:
  assumes "plain_number v"
  shows "parseFloat (number_to_string v) = v"
proof -
  obtain m e where v: "v = Fin m e" using assms by (cases v) (auto simp: plain_number_def)
  have can: "canonical m e" using assms v by (simp add: plain_number_def)
  note st = strip10_canonical[OF can]
  consider (z) "m = 0" | (p) "0 < m" | (n) "m < 0" by linarith
  then show ?thesis
  proof cases
    case z
    then have "e = 0" using can by (simp add: canonical_def)
    then show ?thesis using z v st by (simp add: number_to_string_def parseFloat_zero)
  next
    case p
    then have m10: "m mod 10 \<noteq> 0" using can by (auto simp: canonical_def)
    have r: "- 6 < int (length (digits_of_nat (nat m))) + e" "int (length (digits_of_nat (nat m))) + e \<le> 21"
      using assms v p by (auto simp: plain_number_def)
    show ?thesis using parseFloat_positive_to_string(1)[OF p m10 r] p v st
      by (simp add: number_to_string_def)
  next
    case n
    then have m10: "(- m) mod 10 \<noteq> 0" using can neg_mod10[of m] by (auto simp: canonical_def)
    have a: "nat \<bar>m\<bar> = nat (- m)" using n by simp
    have r: "- 6 < int (length (digits_of_nat (nat (- m)))) + e" "int (length (digits_of_nat (nat (- m)))) + e \<le> 21"
      using assms v n unfolding plain_number_def a by auto
    have pos: "0 < - m" using n by simp
    show ?thesis using parseFloat_positive_to_string(2)[OF pos m10 r] n v st
      by (simp add: number_to_string_def)
  qed
qed

lemma number_to_string_coord_chars:
  assumes "plain_number v"
  shows "number_to_string v \<noteq> []" "\<forall>c \<in> set (number_to_string v). is_coord_char c"
proof -
  obtain m e where v: "v = Fin m e" using assms by (cases v) (auto simp: plain_number_def)
  have can: "canonical m e" using assms v by (simp add: plain_number_def)
  note st = strip10_canonical[OF can]
  have "number_to_string v \<noteq> [] \<and> (\<forall>c \<in> set (number_to_string v). is_coord_char c)"
  proof (cases "m = 0")
    case True
    then show ?thesis using v st by (simp add: number_to_string_def is_coord_char_def is_digit_zero)
  next
    case False
    define s where "s = nat \<bar>m\<bar>"
    have r: "- 6 < int (length (digits_of_nat s)) + e" "int (length (digits_of_nat s)) + e \<le> 21"
      using assms v False unfolding s_def by (auto simp: plain_number_def)
    note ch = positive_to_string_chars[OF r]
    have all: "\<forall>c \<in> set (positive_to_string s e). is_coord_char c"
      using ch(3) unfolding is_coord_char_def by blast
    have dash: "is_coord_char CHR ''-''" by (simp add: is_coord_char_def)
    show ?thesis
    proof (cases "m < 0")
      case True
      then have s: "nat (- m) = s" unfolding s_def by simp
      have "number_to_string v = CHR ''-'' # positive_to_string s e"
        using True v st False by (simp add: number_to_string_def s)
      then show ?thesis using all dash by simp
    next
      case F: False
      then have s: "nat m = s" unfolding s_def by simp
      have "number_to_string v = positive_to_string s e"
        using F v st False by (simp add: number_to_string_def s)
      then show ?thesis using all ch(1) by simp
    qed
  qed
  then show "number_to_string v \<noteq> []" "\<forall>c \<in> set (number_to_string v). is_coord_char c"
    by blast+
qed

lemma run_split:
  assumes "\<forall>c \<in> set r. P c" "rest = [] \<or> \<not> P (hd rest)"
  shows "takeWhile P (r @ rest) = r" "dropWhile P (r @ rest) = rest"
proof -
  have t: "takeWhile P rest = []" using assms(2) by (cases rest) auto
  have d: "dropWhile P rest = rest" using assms(2) by (cases rest) auto
  show "takeWhile P (r @ rest) = r" using assms(1) t by (simp add: takeWhile_append2)
  show "dropWhile P (r @ rest) = rest" using assms(1) d by (simp add: dropWhile_append2)
qed

lemma space_facts:
  "is_space CHR '' ''" "\<not> is_coord_char CHR '' ''" "CHR '' '' \<noteq> CHR ''M''" "CHR '' '' \<noteq> CHR ''L''"
  by (simp_all add: is_space_def is_coord_char_def is_digit_def)

lemma coord_not_space: "is_coord_char c \<Longrightarrow> \<not> is_space c"
  unfolding is_coord_char_def using is_digit_not_others(1)[of c]
  by (auto simp: is_space_def)

lemma letter_not_coord: "\<not> is_coord_char CHR ''M''" "\<not> is_coord_char CHR ''L''"
  by (simp_all add: is_coord_char_def is_digit_def)

lemma match_command_generated:
  assumes c: "c = CHR ''M'' \<or> c = CHR ''L''"
    and X: "X \<noteq> []" "\<forall>a \<in> set X. is_coord_char a"
    and Y: "Y \<noteq> []" "\<forall>a \<in> set Y. is_coord_char a"
    and rest: "rest = [] \<or> \<not> is_coord_char (hd rest)"
  shows "match_command (c # CHR '' '' # X @ CHR '' '' # Y @ rest) =
           Some (c # CHR '' '' # X @ CHR '' '' # Y, rest)"
proof -
  let ?s1 = "CHR '' '' # X @ CHR '' '' # Y @ rest"
  have hx: "\<not> is_space (hd X)" using X coord_not_space by (cases X) auto
  have hy: "\<not> is_space (hd Y)" using Y coord_not_space by (cases Y) auto
  have w1: "takeWhile is_space ?s1 = [CHR '' '']" "dropWhile is_space ?s1 = X @ CHR '' '' # Y @ rest"
    using X(1) hx space_facts(1) by (cases X; simp)+
  have r1: "takeWhile is_coord_char (X @ CHR '' '' # Y @ rest) = X"
    "dropWhile is_coord_char (X @ CHR '' '' # Y @ rest) = CHR '' '' # Y @ rest"
    using run_split[of X is_coord_char "CHR '' '' # Y @ rest"] X(2) space_facts(2) by simp_all
  have w2: "takeWhile is_space (CHR '' '' # Y @ rest) = [CHR '' '']"
    "dropWhile is_space (CHR '' '' # Y @ rest) = Y @ rest"
    using Y(1) hy space_facts(1) by (cases Y; simp)+
  have r2: "takeWhile is_coord_char (Y @ rest) = Y" "dropWhile is_coord_char (Y @ rest) = rest"
    using run_split[of Y is_coord_char rest] Y(2) rest by simp_all
  show ?thesis
    unfolding match_command_def list.case Let_def w1 r1 w2 r2
    using c X(1) Y(1) by auto
qed

lemma match_coords_generated:
  assumes c: "c = CHR ''M'' \<or> c = CHR ''L''"
    and X: "X \<noteq> []" "\<forall>a \<in> set X. is_coord_char a"
    and Y: "Y \<noteq> []" "\<forall>a \<in> set Y. is_coord_char a"
  shows "match_coords (c # CHR '' '' # X @ CHR '' '' # Y) = [X, Y]"
proof -
  have nc: "\<not> is_coord_char c" using c letter_not_coord by auto
  have hx: "is_coord_char (hd (X @ CHR '' '' # Y))" using X by (cases X) auto
  have hy: "is_coord_char (hd Y)" using Y by (cases Y) auto
  have r1: "takeWhile is_coord_char (X @ CHR '' '' # Y) = X"
    "dropWhile is_coord_char (X @ CHR '' '' # Y) = CHR '' '' # Y"
    using run_split[of X is_coord_char "CHR '' '' # Y"] X(2) space_facts(2) by simp_all
  have r2: "takeWhile is_coord_char Y = Y" "dropWhile is_coord_char Y = []"
    using run_split[of Y is_coord_char "[]"] Y(2) by simp_all
  have e: "match_coords [] = []" by (subst match_coords.simps) simp
  have "match_coords Y = takeWhile is_coord_char Y # match_coords (dropWhile is_coord_char Y)"
    by (subst match_coords.simps) (use Y(1) hy in simp)
  then have 4: "match_coords Y = [Y]" unfolding r2 e .
  have 3: "match_coords (CHR '' '' # Y) = [Y]"
    by (subst match_coords.simps) (use space_facts(2) 4 in simp)
  have "match_coords (X @ CHR '' '' # Y) =
      takeWhile is_coord_char (X @ CHR '' '' # Y) #
      match_coords (dropWhile is_coord_char (X @ CHR '' '' # Y))"
    by (subst match_coords.simps) (use X(1) hx in simp)
  then have 2: "match_coords (X @ CHR '' '' # Y) = [X, Y]" unfolding r1 3 .
  have 1: "match_coords (CHR '' '' # X @ CHR '' '' # Y) = [X, Y]"
    by (subst match_coords.simps) (use space_facts(2) 2 in simp)
  show ?thesis
    by (subst match_coords.simps) (use nc 1 in simp)
qed

lemma command_string_match:
  assumes "c = CHR ''M'' \<or> c = CHR ''L''" "plain_point p" "rest = [] \<or> \<not> is_coord_char (hd rest)"
  shows "match_command (command_string c p @ rest) = Some (command_string c p, rest)"
  using match_command_generated[OF assms(1)
      number_to_string_coord_chars[of "pt_x p"] number_to_string_coord_chars[of "pt_y p"] assms(3)]
    assms(2)
  by (simp add: command_string_def plain_point_def)

lemma command_string_coords:
  assumes "c = CHR ''M'' \<or> c = CHR ''L''" "plain_point p"
  shows "match_coords (command_string c p) = [number_to_string (pt_x p), number_to_string (pt_y p)]"
  using match_coords_generated[OF assms(1)
      number_to_string_coord_chars[of "pt_x p"] number_to_string_coord_chars[of "pt_y p"]]
    assms(2)
  by (simp add: command_string_def plain_point_def)

lemma match_commands_Nil: "match_commands [] = []"
  by (subst match_commands.simps) simp

lemma match_commands_tail:
  assumes "\<forall>p \<in> set qs. plain_point p"
  shows "match_commands (concat (map (\<lambda>p. CHR '' '' # command_string CHR ''L'' p) qs)) =
         map (command_string CHR ''L'') qs"
  using assms
proof (induction qs)
  case Nil
  show ?case by (simp add: match_commands_Nil)
next
  case (Cons q qs)
  let ?rest = "concat (map (\<lambda>p. CHR '' '' # command_string CHR ''L'' p) qs)"
  have rest: "?rest = [] \<or> \<not> is_coord_char (hd ?rest)"
    using space_facts(2) by (cases qs) auto
  have q: "plain_point q" using Cons.prems by simp
  have m: "match_command (command_string CHR ''L'' q @ ?rest) = Some (command_string CHR ''L'' q, ?rest)"
    by (rule command_string_match[OF _ q rest]) simp
  have sp: "match_command (CHR '' '' # command_string CHR ''L'' q @ ?rest) = None"
    by (simp add: match_command_def)
  have ne: "command_string CHR ''L'' q \<noteq> []" by (simp add: command_string_def)
  have "match_commands (CHR '' '' # command_string CHR ''L'' q @ ?rest) =
        match_commands (command_string CHR ''L'' q @ ?rest)"
    by (subst match_commands.simps) (simp add: sp)
  also have "\<dots> = command_string CHR ''L'' q # match_commands ?rest"
    by (subst match_commands.simps) (simp add: m ne)
  finally show ?case using Cons by simp
qed

lemma foldl_append_concat:
  "foldl (\<lambda>path q. path @ f q) acc qs = acc @ concat (map f qs)"
  by (induction qs arbitrary: acc) simp_all

lemma map_nth_upt_drop: "map ((!) xs) [k ..< length xs] = drop k xs"
  by (rule nth_equalityI) simp_all

lemma generatePathFromPoints_concat:
  assumes "2 \<le> length ps"
  shows "generatePathFromPoints ps =
    command_string CHR ''M'' (hd ps) @
    concat (map (\<lambda>p. CHR '' '' # command_string CHR ''L'' p) (tl ps))"
proof -
  let ?f = "\<lambda>p. '' L '' @ number_to_string (pt_x p) @ '' '' @ number_to_string (pt_y p)"
  let ?acc = "''M '' @ number_to_string (pt_x (ps ! 0)) @ '' '' @ number_to_string (pt_y (ps ! 0))"
  have "foldl (\<lambda>path i. path @ ?f (ps ! i)) ?acc [1 ..< length ps] =
        foldl (\<lambda>path q. path @ ?f q) ?acc (map ((!) ps) [1 ..< length ps])"
    by (simp add: foldl_map)
  also have "\<dots> = ?acc @ concat (map ?f (drop 1 ps))"
    unfolding map_nth_upt_drop by (rule foldl_append_concat)
  finally have "generatePathFromPoints ps = ?acc @ concat (map ?f (tl ps))"
    using assms by (simp add: generatePathFromPoints_def drop_Suc)
  moreover have "ps ! 0 = hd ps" using assms by (cases ps) auto
  ultimately show ?thesis by (simp add: command_string_def)
qed

lemma parse_step_command:
  assumes "c = CHR ''M'' \<or> c = CHR ''L''" "plain_point p"
  shows "parse_step acc (command_string c p) = acc @ [p]"
  using assms(2) unfolding parse_step_def command_string_coords[OF assms] Let_def
  by (simp add: plain_point_def parseFloat_number_to_string)

lemma parse_steps_tail:
  assumes "\<forall>p \<in> set qs. plain_point p"
  shows "foldl parse_step acc (map (command_string CHR ''L'') qs) = acc @ qs"
  using assms
  by (induction qs arbitrary: acc) (simp_all add: parse_step_command)

lemma parse_generate_plain:
  assumes "2 \<le> length ps" "\<forall>p \<in> set ps. plain_point p"
  shows "parsePathData (generatePathFromPoints ps) = ps"
proof -
  obtain p0 qs where ps: "ps = p0 # qs" using assms(1) by (cases ps) auto
  have p0: "plain_point p0" and qs: "\<forall>p \<in> set qs. plain_point p" using assms(2) ps by auto
  let ?rest = "concat (map (\<lambda>p. CHR '' '' # command_string CHR ''L'' p) qs)"
  have g: "generatePathFromPoints ps = command_string CHR ''M'' p0 @ ?rest"
    using generatePathFromPoints_concat[OF assms(1)] ps by simp
  have rest: "?rest = [] \<or> \<not> is_coord_char (hd ?rest)"
    using space_facts(2) by (cases qs) auto
  have m: "match_command (command_string CHR ''M'' p0 @ ?rest) = Some (command_string CHR ''M'' p0, ?rest)"
    by (rule command_string_match[OF _ p0 rest]) simp
  have ne: "command_string CHR ''M'' p0 \<noteq> []" by (simp add: command_string_def)
  have cmds: "match_commands (generatePathFromPoints ps) =
        command_string CHR ''M'' p0 # map (command_string CHR ''L'') qs"
    unfolding g by (subst match_commands.simps) (simp add: m ne match_commands_tail[OF qs])
  have "parsePathData (generatePathFromPoints ps) =
        foldl parse_step [] (command_string CHR ''M'' p0 # map (command_string CHR ''L'') qs)"
    unfolding parsePathData_def cmds using ne g
    by (simp add: parse_step_def[abs_def] Let_def)
  also have "\<dots> = ps"
    by (simp add: parse_step_command[OF _ p0] parse_steps_tail[OF qs] ps)
  finally show ?thesis .
qed

subsection \<open>Round trip of the path string\<close>

text \<open>
  Claim C7, as stated, fails for a coordinate that is a number but is printed in exponent
  notation: \<open>1e-7\<close> is written as \<open>1e-7\<close>, the parser's expression finds no second
  coordinate run after \<open>1\<close>, and the first command is lost.
\<close>

theorem roundtrip_exponent_counterexample:
  "generatePathFromPoints
     [\<lparr>pt_x = Fin 1 (- 7), pt_y = js_int 0\<rparr>, \<lparr>pt_x = js_int 100, pt_y = js_int 50\<rparr>] =
     ''M 1e-7 0 L 100 50'' \<and>
   parsePathData (generatePathFromPoints
     [\<lparr>pt_x = Fin 1 (- 7), pt_y = js_int 0\<rparr>, \<lparr>pt_x = js_int 100, pt_y = js_int 50\<rparr>]) =
     [\<lparr>pt_x = js_int 100, pt_y = js_int 50\<rparr>] \<and>
   parsePathData (generatePathFromPoints
     [\<lparr>pt_x = Fin 1 (- 7), pt_y = js_int 0\<rparr>, \<lparr>pt_x = js_int 100, pt_y = js_int 50\<rparr>]) \<noteq>
     [\<lparr>pt_x = Fin 1 (- 7), pt_y = js_int 0\<rparr>, \<lparr>pt_x = js_int 100, pt_y = js_int 50\<rparr>]"
  by code_simp

text \<open>
  Claim C7, amended. For every path of at least two points whose coordinates are plain
  numbers (finite, and printed without an exponent), parsing the generated path string gives
  back exactly the path.
\<close>

theorem parsePathData_generatePathFromPoints_roundtrip:
  assumes "2 \<le> length p" "list_all plain_point p"
  shows "parsePathData (generatePathFromPoints p) = p"
  using parse_generate_plain[of p] assms by (simp add: list_all_iff)

theorem parsePathData_generatePathFromPoints_roundtrip_witness:
  "2 \<le> length [\<lparr>pt_x = js_int 0, pt_y = js_int 0\<rparr>, \<lparr>pt_x = js_int 50, pt_y = js_int 0\<rparr>,
                 \<lparr>pt_x = js_int 50, pt_y = js_int 50\<rparr>, \<lparr>pt_x = js_int 100, pt_y = js_int 50\<rparr>] \<and>
   list_all plain_point
     [\<lparr>pt_x = js_int 0, pt_y = js_int 0\<rparr>, \<lparr>pt_x = js_int 50, pt_y = js_int 0\<rparr>,
      \<lparr>pt_x = js_int 50, pt_y = js_int 50\<rparr>, \<lparr>pt_x = js_int 100, pt_y = js_int 50\<rparr>] \<and>
   generatePathFromPoints
     [\<lparr>pt_x = js_int 0, pt_y = js_int 0\<rparr>, \<lparr>pt_x = js_int 50, pt_y = js_int 0\<rparr>,
      \<lparr>pt_x = js_int 50, pt_y = js_int 50\<rparr>, \<lparr>pt_x = js_int 100, pt_y = js_int 50\<rparr>] =
     ''M 0 0 L 50 0 L 50 50 L 100 50'' \<and>
   parsePathData (generatePathFromPoints
     [\<lparr>pt_x = js_int 0, pt_y = js_int 0\<rparr>, \<lparr>pt_x = js_int 50, pt_y = js_int 0\<rparr>,
      \<lparr>pt_x = js_int 50, pt_y = js_int 50\<rparr>, \<lparr>pt_x = js_int 100, pt_y = js_int 50\<rparr>]) =
     [\<lparr>pt_x = js_int 0, pt_y = js_int 0\<rparr>, \<lparr>pt_x = js_int 50, pt_y = js_int 0\<rparr>,
      \<lparr>pt_x = js_int 50, pt_y = js_int 50\<rparr>, \<lparr>pt_x = js_int 100, pt_y = js_int 50\<rparr>]"
proof -
  let ?p = "[\<lparr>pt_x = js_int 0, pt_y = js_int 0\<rparr>, \<lparr>pt_x = js_int 50, pt_y = js_int 0\<rparr>,
             \<lparr>pt_x = js_int 50, pt_y = js_int 50\<rparr>, \<lparr>pt_x = js_int 100, pt_y = js_int 50\<rparr>]"
  have l: "2 \<le> length ?p" by simp
  have pl: "list_all plain_point ?p" by code_simp
  have g: "generatePathFromPoints ?p = ''M 0 0 L 50 0 L 50 50 L 100 50''" by code_simp
  show ?thesis
    using parsePathData_generatePathFromPoints_roundtrip[OF l pl] l pl g by simp
qed

subsection \<open>Default path synthesis\<close>


lemma upt_1_4: "[1 ..< 4] = [1, 2, 3 :: nat]"
  by (simp add: upt_rec)

lemma createConnectionPath_default_points:
  "createConnectionPath startX startY endX endY None =
   createPathFromPoints
     [\<lparr>pt_x = startX, pt_y = startY\<rparr>,
      \<lparr>pt_x = js_add startX (js_mul (js_sub endX startX) (Fin 5 (- 1))), pt_y = startY\<rparr>,
      \<lparr>pt_x = js_add startX (js_mul (js_sub endX startX) (Fin 5 (- 1))), pt_y = endY\<rparr>,
      \<lparr>pt_x = endX, pt_y = endY\<rparr>]"
  by (simp add: createConnectionPath_def createPathFromPoints_def Let_def upt_1_4)



section \<open>Card drag: translating a custom path\<close>




section \<open>Load-time validation of connection line data\<close>

lemma points_valid_list_all:
  "points_valid pts =
     list_all (\<lambda>p. truthy p \<and> typeof (get_prop p ''x'') = ''number'' \<and>
                    typeof (get_prop p ''y'') = ''number'') pts"
  by (induction pts) auto

lemma number_point_checks:
  assumes "number_point p"
  shows "truthy p" "typeof (get_prop p ''x'') = ''number''" "typeof (get_prop p ''y'') = ''number''"
proof -
  obtain fs where p: "p = JObj fs" using assms by (cases p) auto
  obtain a b where "map_of fs ''x'' = Some (JNum a)" "map_of fs ''y'' = Some (JNum b)"
    using assms unfolding p by (auto split: option.splits jsval.splits)
  then show "truthy p" "typeof (get_prop p ''x'') = ''number''" "typeof (get_prop p ''y'') = ''number''"
    unfolding p by simp_all
qed

lemma validate_number_points:
  assumes "map_of fs ''pathPoints'' = Some (JArr pts)" "2 \<le> length pts" "list_all number_point pts"
  shows "validateConnectionLineData (JObj fs) recordId"
proof -
  have "points_valid pts"
    unfolding points_valid_list_all using assms(3) number_point_checks
    by (simp add: list_all_iff)
  then show ?thesis using assms(1,2) by (simp add: validateConnectionLineData_def)
qed

lemma corrupt_rejected:
  assumes "corrupt_pathPoints cl"
  shows "\<not> validateConnectionLineData cl recordId"
proof (cases "get_prop cl ''pathPoints''")
  case (JArr pts)
  then have "length pts < 2 \<or> \<not> points_valid pts"
    using assms unfolding corrupt_pathPoints_def points_valid_list_all
    by (auto simp: list_all_iff list_ex_iff)
  then show ?thesis using JArr by (auto simp: validateConnectionLineData_def)
qed (simp_all add: validateConnectionLineData_def)

lemma cleanup_records_eq:
  "cleanup_records now rs n =
     (map (\<lambda>entry. if needs_cleanup entry
                    then (fst entry, without_connectionLine now (snd entry)) else entry) rs,
      n + length (filter needs_cleanup rs))"
proof (induction rs arbitrary: n)
  case Nil
  show ?case by simp
next
  case (Cons entry rs)
  obtain recordId r where e: "entry = (recordId, r)" by (cases entry)
  show ?case
    unfolding e using Cons.IH
    by (simp add: needs_cleanup_def is_custom_def without_connectionLine_def)
qed

lemma cleanup_records_fst:
  "fst (cleanup_records now rs n) =
     map (\<lambda>entry. if needs_cleanup entry
                   then (fst entry, without_connectionLine now (snd entry)) else entry) rs"
  by (simp add: cleanup_records_eq)

lemma cleanup_records_snd:
  "snd (cleanup_records now rs n) = n + length (filter needs_cleanup rs)"
  by (simp add: cleanup_records_eq)

lemma cleanup_records_alt:
  "records (cleanupInvalidConnectionLines now st) =
     map (\<lambda>entry. if needs_cleanup entry
                   then (fst entry, without_connectionLine now (snd entry)) else entry) (records st)"
  "storageManager (cleanupInvalidConnectionLines now st) =
     (if filter needs_cleanup (records st) = [] then storageManager st
      else triggerAutoSave (storageManager st))"
proof -
  obtain recs c where c: "cleanup_records now (records st) 0 = (recs, c)" by fastforce
  have r: "recs = map (\<lambda>entry. if needs_cleanup entry
                   then (fst entry, without_connectionLine now (snd entry)) else entry) (records st)"
    using cleanup_records_fst[of now "records st" 0] c by simp
  have n: "c = length (filter needs_cleanup (records st))"
    using cleanup_records_snd[of now "records st" 0] c by simp
  show "records (cleanupInvalidConnectionLines now st) =
     map (\<lambda>entry. if needs_cleanup entry
                   then (fst entry, without_connectionLine now (snd entry)) else entry) (records st)"
    unfolding cleanupInvalidConnectionLines_def c using r by simp
  show "storageManager (cleanupInvalidConnectionLines now st) =
     (if filter needs_cleanup (records st) = [] then storageManager st
      else triggerAutoSave (storageManager st))"
    unfolding cleanupInvalidConnectionLines_def c using n by simp
qed

lemma custom_is_object: "is_custom r \<Longrightarrow> \<exists>fs. r = JObj fs"
  by (cases r) (auto simp: is_custom_def)

lemma map_of_filter_other:
  "k' \<noteq> k \<Longrightarrow> map_of (filter (\<lambda>kv. fst kv \<noteq> k) fs) k' = map_of fs k'"
  by (induction fs) auto

lemma map_of_filter_same: "map_of (filter (\<lambda>kv. fst kv \<noteq> k) fs) k = None"
  by (induction fs) auto

lemma get_prop_set_prop_other:
  "k' \<noteq> k \<Longrightarrow> get_prop (set_prop k v (JObj fs)) k' = get_prop (JObj fs) k'"
  by (auto simp: map_add_def map_of_filter_other split: option.splits)

lemma get_prop_delete_prop: "get_prop (delete_prop k (JObj fs)) k = JUndefined"
  by (simp add: map_of_filter_same)

lemma without_connectionLine_gone:
  assumes "is_custom r"
  shows "get_prop (without_connectionLine now r) ''connectionLine'' = JUndefined"
proof -
  obtain fs where r: "r = JObj fs" using custom_is_object[OF assms] by blast
  obtain gs where d: "delete_prop ''connectionLine'' (JObj fs) = JObj gs" by simp
  have "get_prop (set_prop ''updatedAt'' (JStr now) (JObj gs)) ''connectionLine'' =
        get_prop (JObj gs) ''connectionLine''"
    by (rule get_prop_set_prop_other) simp
  also have "\<dots> = JUndefined"
    unfolding d[symmetric] by (rule get_prop_delete_prop)
  finally show ?thesis unfolding r without_connectionLine_def d .
qed

lemma drawLine_without_connectionLine:
  assumes "get_prop r ''connectionLine'' = JUndefined"
  shows "drawLine_connectionLineData now r sm = (JNull, r, sm)"
  using assms by (simp add: drawLine_connectionLineData_def)

text \<open>
  Claim C10. A connection line object whose \<open>pathPoints\<close> is an array of at least two
  entries, each an object with numbers as \<open>x\<close> and \<open>y\<close>, passes the validation whatever
  the numbers are, NaN and the infinities included; with \<open>isCustom\<close> true, the cleanup
  leaves its record as it is and the manager hands the line to the renderer for drawing.
\<close>

theorem validateConnectionLineData_accepts_non_finite:
  assumes "map_of fs ''pathPoints'' = Some (JArr pts)" "2 \<le> length pts" "list_all number_point pts"
    and "map_of fs ''isCustom'' = Some (JBool True)"
    and "get_prop r ''connectionLine'' = JObj fs"
  shows "validateConnectionLineData (JObj fs) recordId \<and>
         cleanupInvalidConnectionLines now \<lparr>records = [(recordId, r)], storageManager = sm\<rparr> =
           \<lparr>records = [(recordId, r)], storageManager = sm\<rparr> \<and>
         drawLine_connectionLineData now r sm = (JObj fs, r, sm)"
proof -
  have v: "validateConnectionLineData (JObj fs) rid" for rid
    by (rule validate_number_points[OF assms(1-3)])
  have nc: "\<not> needs_cleanup (recordId, r)"
    using v assms(5) by (simp add: needs_cleanup_def)
  let ?st = "\<lparr>records = [(recordId, r)], storageManager = sm\<rparr>"
  have "records (cleanupInvalidConnectionLines now ?st) = [(recordId, r)]"
    "storageManager (cleanupInvalidConnectionLines now ?st) = sm"
    unfolding cleanup_records_alt using nc by simp_all
  then have c: "cleanupInvalidConnectionLines now ?st = ?st"
    by (cases "cleanupInvalidConnectionLines now ?st") simp
  have d: "drawLine_connectionLineData now r sm = (JObj fs, r, sm)"
    using v assms(4,5) by (simp add: drawLine_connectionLineData_def)
  show ?thesis using v c d by blast
qed

theorem validateConnectionLineData_accepts_non_finite_witness:
  "validateConnectionLineData
     (JObj [(''isCustom'', JBool True),
            (''pathPoints'', JArr [JObj [(''x'', JNum NaN), (''y'', JNum PosInfinity)],
                                   JObj [(''x'', JNum NegInfinity), (''y'', JNum (js_int 2))]])])
     ''r1'' \<and>
   drawLine_connectionLineData ''t''
     (JObj [(''id'', JStr ''r1''),
            (''connectionLine'',
             JObj [(''isCustom'', JBool True),
                   (''pathPoints'', JArr [JObj [(''x'', JNum NaN), (''y'', JNum PosInfinity)],
                                          JObj [(''x'', JNum NegInfinity), (''y'', JNum (js_int 2))]])])])
     (Some 0) =
   (JObj [(''isCustom'', JBool True),
          (''pathPoints'', JArr [JObj [(''x'', JNum NaN), (''y'', JNum PosInfinity)],
                                 JObj [(''x'', JNum NegInfinity), (''y'', JNum (js_int 2))]])],
    JObj [(''id'', JStr ''r1''),
            (''connectionLine'',
             JObj [(''isCustom'', JBool True),
                   (''pathPoints'', JArr [JObj [(''x'', JNum NaN), (''y'', JNum PosInfinity)],
                                          JObj [(''x'', JNum NegInfinity), (''y'', JNum (js_int 2))]])])],
    Some 0)"
proof -
  let ?pts = "[JObj [(''x'', JNum NaN), (''y'', JNum PosInfinity)],
               JObj [(''x'', JNum NegInfinity), (''y'', JNum (js_int 2))]]"
  let ?fs = "[(''isCustom'', JBool True), (''pathPoints'', JArr ?pts)]"
  let ?r = "JObj [(''id'', JStr ''r1''), (''connectionLine'', JObj ?fs)]"
  have 1: "map_of ?fs ''pathPoints'' = Some (JArr ?pts)" by simp
  have 2: "2 \<le> length ?pts" by simp
  have 3: "list_all number_point ?pts" by simp
  have 4: "map_of ?fs ''isCustom'' = Some (JBool True)" by simp
  have 5: "get_prop ?r ''connectionLine'' = JObj ?fs" by simp
  show ?thesis
    using validateConnectionLineData_accepts_non_finite[OF 1 2 3 4 5, of "''r1''" "''t''" "Some 0"]
    by blast
qed

text \<open>
  Claim C9. Take a loaded record whose connection line has \<open>isCustom\<close> true. If its path
  points are corrupt (missing, not an array, fewer than two, or an entry whose \<open>x\<close> or \<open>y\<close>
  is not a number), the cleanup pass deletes the \<open>connectionLine\<close> field of the record and
  stamps the record, the next draw hands \<open>null\<close> to the renderer, which then builds the
  default path, and the pass calls \<open>triggerAutoSave\<close> exactly once. The pass keeps the
  number and the order of the records, and every record that is not custom or whose
  connection line is valid is left unchanged.
\<close>

theorem cleanupInvalidConnectionLines_deletes_corrupt:
  assumes "i < length (records st)" "records st ! i = (recordId, r)"
    and "get_prop (get_prop r ''connectionLine'') ''isCustom'' = JBool True"
    and "corrupt_pathPoints (get_prop r ''connectionLine'')"
  shows "length (records (cleanupInvalidConnectionLines now st)) = length (records st) \<and>
         records (cleanupInvalidConnectionLines now st) ! i =
           (recordId, without_connectionLine now r) \<and>
         get_prop (without_connectionLine now r) ''connectionLine'' = JUndefined \<and>
         drawLine_connectionLineData later (without_connectionLine now r) sm =
           (JNull, without_connectionLine now r, sm) \<and>
         createConnectionPath startX startY endX endY
           (read_connectionLineData
              (fst (drawLine_connectionLineData later (without_connectionLine now r) sm))) =
           createPathFromPoints
             [\<lparr>pt_x = startX, pt_y = startY\<rparr>,
              \<lparr>pt_x = js_add startX (js_mul (js_sub endX startX) (Fin 5 (- 1))), pt_y = startY\<rparr>,
              \<lparr>pt_x = js_add startX (js_mul (js_sub endX startX) (Fin 5 (- 1))), pt_y = endY\<rparr>,
              \<lparr>pt_x = endX, pt_y = endY\<rparr>] \<and>
         storageManager (cleanupInvalidConnectionLines now st) =
           map_option Suc (storageManager st) \<and>
         (\<forall>j < length (records st).
            \<not> is_custom (snd (records st ! j)) \<or>
            validateConnectionLineData (get_prop (snd (records st ! j)) ''connectionLine'')
              (fst (records st ! j)) \<longrightarrow>
            records (cleanupInvalidConnectionLines now st) ! j = records st ! j)"
proof -
  let ?st' = "cleanupInvalidConnectionLines now st"
  let ?r' = "without_connectionLine now r"
  have cl: "truthy (get_prop r ''connectionLine'')"
    using assms(3) by (cases "get_prop r ''connectionLine''") (auto split: if_splits)
  have custom: "is_custom r" using cl assms(3) by (simp add: is_custom_def)
  have need: "needs_cleanup (recordId, r)"
    using custom corrupt_rejected[OF assms(4)] by (simp add: needs_cleanup_def)
  have 1: "length (records ?st') = length (records st)"
    unfolding cleanup_records_alt by simp
  have 2: "records ?st' ! i = (recordId, ?r')"
    unfolding cleanup_records_alt using assms(1,2) need by simp
  have 3: "get_prop ?r' ''connectionLine'' = JUndefined"
    by (rule without_connectionLine_gone[OF custom])
  have 4: "drawLine_connectionLineData later ?r' sm = (JNull, ?r', sm)"
    by (rule drawLine_without_connectionLine[OF 3])
  have 5: "createConnectionPath startX startY endX endY
             (read_connectionLineData (fst (drawLine_connectionLineData later ?r' sm))) =
           createPathFromPoints
             [\<lparr>pt_x = startX, pt_y = startY\<rparr>,
              \<lparr>pt_x = js_add startX (js_mul (js_sub endX startX) (Fin 5 (- 1))), pt_y = startY\<rparr>,
              \<lparr>pt_x = js_add startX (js_mul (js_sub endX startX) (Fin 5 (- 1))), pt_y = endY\<rparr>,
              \<lparr>pt_x = endX, pt_y = endY\<rparr>]"
    unfolding 4 by (simp add: read_connectionLineData_def createConnectionPath_default_points)
  have "(recordId, r) \<in> set (records st)"
    using assms(1,2) nth_mem[of i "records st"] by simp
  then have ne: "filter needs_cleanup (records st) \<noteq> []"
    using need by (auto simp: filter_empty_conv)
  have 6: "storageManager ?st' = map_option Suc (storageManager st)"
    unfolding cleanup_records_alt using ne by (simp add: triggerAutoSave_def)
  have 7: "\<forall>j < length (records st).
            \<not> is_custom (snd (records st ! j)) \<or>
            validateConnectionLineData (get_prop (snd (records st ! j)) ''connectionLine'')
              (fst (records st ! j)) \<longrightarrow>
            records ?st' ! j = records st ! j"
    unfolding cleanup_records_alt by (auto simp: needs_cleanup_def)
  show ?thesis using 1 2 3 4 5 6 7 by blast
qed

theorem cleanupInvalidConnectionLines_deletes_corrupt_witness:
  "corrupt_pathPoints
     (JObj [(''isCustom'', JBool True),
            (''pathPoints'', JArr [JObj [(''x'', JNum (js_int 1)), (''y'', JNum (js_int 2))]])]) \<and>
   cleanupInvalidConnectionLines ''t''
     \<lparr>records =
        [(''a'', JObj [(''id'', JStr ''a''),
                      (''connectionLine'',
                       JObj [(''isCustom'', JBool True),
                             (''pathPoints'', JArr [JObj [(''x'', JNum (js_int 1)),
                                                          (''y'', JNum (js_int 2))]])])]),
         (''b'', JObj [(''id'', JStr ''b''),
                      (''connectionLine'',
                       JObj [(''isCustom'', JBool True),
                             (''pathPoints'', JArr [JObj [(''x'', JNum (js_int 1)),
                                                          (''y'', JNum (js_int 2))],
                                                    JObj [(''x'', JNum (js_int 3)),
                                                          (''y'', JNum (js_int 2))]])])])],
      storageManager = Some 0\<rparr> =
     \<lparr>records =
        [(''a'', JObj [(''id'', JStr ''a''), (''updatedAt'', JStr ''t'')]),
         (''b'', JObj [(''id'', JStr ''b''),
                      (''connectionLine'',
                       JObj [(''isCustom'', JBool True),
                             (''pathPoints'', JArr [JObj [(''x'', JNum (js_int 1)),
                                                          (''y'', JNum (js_int 2))],
                                                    JObj [(''x'', JNum (js_int 3)),
                                                          (''y'', JNum (js_int 2))]])])])],
      storageManager = Some 1\<rparr> \<and>
   createConnectionPath (js_int 0) (js_int 0) (js_int 100) (js_int 50)
     (read_connectionLineData
        (fst (drawLine_connectionLineData ''u''
                (JObj [(''id'', JStr ''a''), (''updatedAt'', JStr ''t'')]) (Some 1)))) =
     ''M 0 0 L 50 0 L 50 50 L 100 50''"
proof -
  let ?cla = "JObj [(''isCustom'', JBool True),
                    (''pathPoints'', JArr [JObj [(''x'', JNum (js_int 1)), (''y'', JNum (js_int 2))]])]"
  let ?clb = "JObj [(''isCustom'', JBool True),
                    (''pathPoints'', JArr [JObj [(''x'', JNum (js_int 1)), (''y'', JNum (js_int 2))],
                                           JObj [(''x'', JNum (js_int 3)), (''y'', JNum (js_int 2))]])]"
  let ?a = "JObj [(''id'', JStr ''a''), (''connectionLine'', ?cla)]"
  let ?b = "JObj [(''id'', JStr ''b''), (''connectionLine'', ?clb)]"
  let ?st = "\<lparr>records = [(''a'', ?a), (''b'', ?b)], storageManager = Some 0\<rparr>"
  let ?st' = "cleanupInvalidConnectionLines ''t'' ?st"
  have i: "0 < length (records ?st)" by simp
  have e: "records ?st ! 0 = (''a'', ?a)" by simp
  have c: "get_prop (get_prop ?a ''connectionLine'') ''isCustom'' = JBool True" by simp
  have k: "corrupt_pathPoints (get_prop ?a ''connectionLine'')" by (simp add: corrupt_pathPoints_def)
  note t = cleanupInvalidConnectionLines_deletes_corrupt[OF i e c k,
      of "''t''" "''u''" "Some 1" "js_int 0" "js_int 0" "js_int 100" "js_int 50"]
  have wa: "without_connectionLine ''t'' ?a = JObj [(''id'', JStr ''a''), (''updatedAt'', JStr ''t'')]"
    by (simp add: without_connectionLine_def)
  have vb: "validateConnectionLineData (get_prop (snd (records ?st ! 1)) ''connectionLine'')
              (fst (records ?st ! 1))"
    by (simp add: validateConnectionLineData_def)
  have l: "length (records ?st') = 2" using t by simp
  have r0: "records ?st' ! 0 = (''a'', JObj [(''id'', JStr ''a''), (''updatedAt'', JStr ''t'')])"
    using t wa by simp
  have r1: "records ?st' ! 1 = (''b'', ?b)"
  proof -
    have "\<forall>j < length (records ?st).
            \<not> is_custom (snd (records ?st ! j)) \<or>
            validateConnectionLineData (get_prop (snd (records ?st ! j)) ''connectionLine'')
              (fst (records ?st ! j)) \<longrightarrow>
            records ?st' ! j = records ?st ! j"
      using t by blast
    then have "records ?st' ! 1 = records ?st ! 1" using vb by simp
    then show ?thesis by simp
  qed
  have recs: "records ?st' = [(''a'', JObj [(''id'', JStr ''a''), (''updatedAt'', JStr ''t'')]), (''b'', ?b)]"
    using l r0 r1 by (intro nth_equalityI) (auto simp: less_Suc_eq numeral_2_eq_2)
  have sm: "storageManager ?st' = Some 1" using t by simp
  have st': "?st' = \<lparr>records = [(''a'', JObj [(''id'', JStr ''a''), (''updatedAt'', JStr ''t'')]), (''b'', ?b)],
                     storageManager = Some 1\<rparr>"
    using recs sm by (cases ?st') simp
  have path: "createPathFromPoints
             [\<lparr>pt_x = js_int 0, pt_y = js_int 0\<rparr>,
              \<lparr>pt_x = js_add (js_int 0) (js_mul (js_sub (js_int 100) (js_int 0)) (Fin 5 (- 1))), pt_y = js_int 0\<rparr>,
              \<lparr>pt_x = js_add (js_int 0) (js_mul (js_sub (js_int 100) (js_int 0)) (Fin 5 (- 1))), pt_y = js_int 50\<rparr>,
              \<lparr>pt_x = js_int 100, pt_y = js_int 50\<rparr>] = ''M 0 0 L 50 0 L 50 50 L 100 50''"
    by code_simp
  have d: "createConnectionPath (js_int 0) (js_int 0) (js_int 100) (js_int 50)
     (read_connectionLineData
        (fst (drawLine_connectionLineData ''u''
                (JObj [(''id'', JStr ''a''), (''updatedAt'', JStr ''t'')]) (Some 1)))) =
     ''M 0 0 L 50 0 L 50 50 L 100 50''"
    using t unfolding wa path by blast
  have k': "corrupt_pathPoints ?cla" using k by simp
  show ?thesis using k' st' d by blast
qed

section \<open>Properties of the connection line adjuster\<close>

subsection \<open>Selecting a record\<close>

lemma parsePathData_Nil: "parsePathData [] = []"
  by (simp add: parsePathData_def)

lemma alloc_points_effect:
  assumes "alloc_points ps s = (addrs, s')"
  shows "addrs = [next_addr s ..< next_addr s + length ps]" "distinct addrs"
    "map (heap s') addrs = ps" "connectionsGroup s' = connectionsGroup s"
    "selectedRecordId s' = selectedRecordId s" "handlesGroup s' = handlesGroup s"
    "originalPathPoints s' = originalPathPoints s"
proof -
  have a: "addrs = [next_addr s ..< next_addr s + length ps]"
    and s': "s' = s\<lparr>heap := (\<lambda>a. if next_addr s \<le> a \<and> a < next_addr s + length ps
                      then ps ! (a - next_addr s) else heap s a),
                  next_addr := next_addr s + length ps\<rparr>"
    using assms by (auto simp: alloc_points_def)
  show "addrs = [next_addr s ..< next_addr s + length ps]" by (rule a)
  show "distinct addrs" unfolding a by simp
  show "map (heap s') addrs = ps" unfolding a s' by (rule nth_equalityI) simp_all
  show "connectionsGroup s' = connectionsGroup s" "selectedRecordId s' = selectedRecordId s"
    "handlesGroup s' = handlesGroup s" "originalPathPoints s' = originalPathPoints s"
    unfolding s' by simp_all
qed

lemma showControlHandles_effect:
  assumes "querySelector (connectionsGroup s) recordId = Some pathData"
    and "2 \<le> length (parsePathData pathData)"
  shows "selectedRecordId (showControlHandles recordId s) = None"
    and "originalPathPoints (showControlHandles recordId s) =
           Some [next_addr s ..< next_addr s + length (parsePathData pathData)]"
    and "baseline_points (showControlHandles recordId s) = Some (parsePathData pathData)"
    and "connectionsGroup (showControlHandles recordId s) = connectionsGroup s"
    and "handlesGroup (showControlHandles recordId s) =
           map (\<lambda>i. createControlHandle
                       (js_div (js_add (pt_x (parsePathData pathData ! i))
                                       (pt_x (parsePathData pathData ! (i + 1)))) (js_int 2))
                       (js_div (js_add (pt_y (parsePathData pathData ! i))
                                       (pt_y (parsePathData pathData ! (i + 1)))) (js_int 2))
                       i recordId
                       (segment_isHorizontal (parsePathData pathData ! i) (parsePathData pathData ! (i + 1)))
                       (segment_isVertical (parsePathData pathData ! i) (parsePathData pathData ! (i + 1))))
             [0 ..< length (parsePathData pathData) - 1]"
proof -
  let ?pts = "parsePathData pathData"
  let ?s2 = "hideControlHandles (s\<lparr>selectedRecordId := Some recordId\<rparr>)"
  have ne: "pathData \<noteq> []" using assms(2) parsePathData_Nil by auto
  have q: "querySelector (connectionsGroup ?s2) recordId = Some pathData"
    using assms(1) by (simp add: hideControlHandles_def)
  obtain addrs s3 where al: "alloc_points ?pts ?s2 = (addrs, s3)" by fastforce
  note e = alloc_points_effect[OF al]
  have n2: "next_addr ?s2 = next_addr s" by (simp add: hideControlHandles_def)
  have len: "length addrs = length ?pts" using e(1) by simp
  have nl: "\<not> length addrs < 2" using len assms(2) by simp
  let ?s4 = "s3\<lparr>originalPathPoints := Some addrs\<rparr>"
  have res: "showControlHandles recordId s = createSegmentControlHandles addrs recordId ?s4"
    unfolding showControlHandles_def Let_def q using ne al nl by simp
  have h3: "handlesGroup s3 = []" "selectedRecordId s3 = None"
    using e(5,6) by (simp_all add: hideControlHandles_def)
  show "selectedRecordId (showControlHandles recordId s) = None"
    unfolding res using h3 by (simp add: createSegmentControlHandles_def)
  show "originalPathPoints (showControlHandles recordId s) =
          Some [next_addr s ..< next_addr s + length ?pts]"
    unfolding res using e(1) n2 by (simp add: createSegmentControlHandles_def)
  have hp: "heap (createSegmentControlHandles addrs recordId ?s4) = heap s3"
    by (simp add: createSegmentControlHandles_def)
  show "baseline_points (showControlHandles recordId s) = Some ?pts"
    unfolding res baseline_points_def using e(3) hp
    by (simp add: createSegmentControlHandles_def)
  show "connectionsGroup (showControlHandles recordId s) = connectionsGroup s"
    unfolding res using e(4) by (simp add: createSegmentControlHandles_def hideControlHandles_def)
  have nth: "heap s3 (addrs ! i) = ?pts ! i" if "i < length ?pts" for i
    using e(3) that len by (metis nth_map)
  show "handlesGroup (showControlHandles recordId s) =
           map (\<lambda>i. createControlHandle
                       (js_div (js_add (pt_x (?pts ! i)) (pt_x (?pts ! (i + 1)))) (js_int 2))
                       (js_div (js_add (pt_y (?pts ! i)) (pt_y (?pts ! (i + 1)))) (js_int 2))
                       i recordId
                       (segment_isHorizontal (?pts ! i) (?pts ! (i + 1)))
                       (segment_isVertical (?pts ! i) (?pts ! (i + 1))))
             [0 ..< length ?pts - 1]"
    unfolding res createSegmentControlHandles_def using h3(1) len
    by (simp add: Let_def nth)
qed

text \<open>
  Selecting the only record of a fresh adjuster: the addresses start at 0.
\<close>

lemma showControlHandles_fresh:
  assumes "parsePathData d = pts" "2 \<le> length pts"
  shows "originalPathPoints (showControlHandles rid (new_adjuster [(rid, d)])) = Some [0 ..< length pts]"
    and "map (heap (showControlHandles rid (new_adjuster [(rid, d)]))) [0 ..< length pts] = pts"
    and "baseline_points (showControlHandles rid (new_adjuster [(rid, d)])) = Some pts"
    and "connectionsGroup (showControlHandles rid (new_adjuster [(rid, d)])) = [(rid, d)]"
    and "querySelector (connectionsGroup (showControlHandles rid (new_adjuster [(rid, d)]))) rid = Some d"
    and "length (handlesGroup (showControlHandles rid (new_adjuster [(rid, d)]))) = length pts - 1"
    and "i + 1 < length pts \<Longrightarrow>
         h_segmentIndex (handlesGroup (showControlHandles rid (new_adjuster [(rid, d)])) ! i) = i"
    and "i + 1 < length pts \<Longrightarrow>
         h_isHorizontal (handlesGroup (showControlHandles rid (new_adjuster [(rid, d)])) ! i) =
         segment_isHorizontal (pts ! i) (pts ! (i + 1))"
    and "i + 1 < length pts \<Longrightarrow>
         h_isVertical (handlesGroup (showControlHandles rid (new_adjuster [(rid, d)])) ! i) =
         segment_isVertical (pts ! i) (pts ! (i + 1))"
proof -
  let ?s = "new_adjuster [(rid, d)]"
  let ?X = "showControlHandles rid ?s"
  have q: "querySelector (connectionsGroup ?s) rid = Some d"
    by (simp add: new_adjuster_def querySelector_def)
  have l: "2 \<le> length (parsePathData d)" using assms by simp
  note e = showControlHandles_effect[OF q l, unfolded assms(1)]
  have n: "next_addr ?s = 0" by (simp add: new_adjuster_def)
  show o: "originalPathPoints ?X = Some [0 ..< length pts]" using e(2) n by simp
  show "baseline_points ?X = Some pts" by (rule e(3))
  then show "map (heap ?X) [0 ..< length pts] = pts"
    unfolding baseline_points_def o by simp
  show c: "connectionsGroup ?X = [(rid, d)]" using e(4) by (simp add: new_adjuster_def)
  show "querySelector (connectionsGroup ?X) rid = Some d"
    unfolding c by (simp add: querySelector_def)
  show "length (handlesGroup ?X) = length pts - 1" unfolding e(5) by simp
  have nth: "[0 ..< length pts - 1] ! i = i" "i < length [0 ..< length pts - 1]"
    if "i + 1 < length pts"
    using that by simp_all
  show "h_segmentIndex (handlesGroup ?X ! i) = i" if "i + 1 < length pts"
    unfolding e(5) using nth[OF that] by (simp add: createControlHandle_def)
  show "h_isHorizontal (handlesGroup ?X ! i) = segment_isHorizontal (pts ! i) (pts ! (i + 1))"
    if "i + 1 < length pts"
    unfolding e(5) using nth[OF that] by (simp add: createControlHandle_def)
  show "h_isVertical (handlesGroup ?X ! i) = segment_isVertical (pts ! i) (pts ! (i + 1))"
    if "i + 1 < length pts"
    unfolding e(5) using nth[OF that] by (simp add: createControlHandle_def)
qed

lemma upt_0_4: "[0 ..< 4] = [0, 1, 2, 3 :: nat]"
  by (simp add: upt_rec)

lemma elbow_parse:
  "parsePathData ''M 0 0 L 50 0 L 50 50 L 100 50'' =
     [\<lparr>pt_x = js_int 0, pt_y = js_int 0\<rparr>, \<lparr>pt_x = js_int 50, pt_y = js_int 0\<rparr>,
      \<lparr>pt_x = js_int 50, pt_y = js_int 50\<rparr>, \<lparr>pt_x = js_int 100, pt_y = js_int 50\<rparr>]"
  by code_simp

text \<open>
  Claim C3 fails on the code: \<open>showControlHandles\<close> stores the record id and then calls
  \<open>hideControlHandles\<close>, which resets it, and nothing stores it again. After a selection,
  whatever the state and the record, no record is selected. (The baseline is cached and the
  handles are built at the midpoints, as \<open>showControlHandles_effect\<close> shows.)
\<close>

theorem showControlHandles_forgets_selection:
  "selectedRecordId (showControlHandles recordId s) = None"
proof (cases "querySelector (connectionsGroup s) recordId")
  case None
  then show ?thesis
    by (simp add: showControlHandles_def hideControlHandles_def)
next
  case (Some pathData)
  let ?s2 = "hideControlHandles (s\<lparr>selectedRecordId := Some recordId\<rparr>)"
  have q: "querySelector (connectionsGroup ?s2) recordId = Some pathData"
    using Some by (simp add: hideControlHandles_def)
  obtain addrs s3 where al: "alloc_points (parsePathData pathData) ?s2 = (addrs, s3)" by fastforce
  have s3: "selectedRecordId s3 = None"
    using alloc_points_effect(5)[OF al] by (simp add: hideControlHandles_def)
  show ?thesis
    unfolding showControlHandles_def Let_def q using al s3
    by (simp add: hideControlHandles_def createSegmentControlHandles_def)
qed

text \<open>
  For example, when the record \<open>r1\<close> with the default path from (0,0) to (100,50) is
  selected in a fresh adjuster: the baseline is cached, three handles are built, and no
  record is selected.
\<close>

lemma showControlHandles_example:
  "selectedRecordId
     (showControlHandles ''r1'' (new_adjuster [(''r1'', ''M 0 0 L 50 0 L 50 50 L 100 50'')])) = None \<and>
   baseline_points
     (showControlHandles ''r1'' (new_adjuster [(''r1'', ''M 0 0 L 50 0 L 50 50 L 100 50'')])) =
     Some [\<lparr>pt_x = js_int 0, pt_y = js_int 0\<rparr>, \<lparr>pt_x = js_int 50, pt_y = js_int 0\<rparr>,
           \<lparr>pt_x = js_int 50, pt_y = js_int 50\<rparr>, \<lparr>pt_x = js_int 100, pt_y = js_int 50\<rparr>] \<and>
   length (handlesGroup
     (showControlHandles ''r1'' (new_adjuster [(''r1'', ''M 0 0 L 50 0 L 50 50 L 100 50'')]))) = 3"
proof -
  have q: "querySelector (connectionsGroup (new_adjuster [(''r1'', ''M 0 0 L 50 0 L 50 50 L 100 50'')])) ''r1'' =
           Some ''M 0 0 L 50 0 L 50 50 L 100 50''"
    by (simp add: new_adjuster_def querySelector_def)
  have l: "2 \<le> length (parsePathData ''M 0 0 L 50 0 L 50 50 L 100 50'')"
    unfolding elbow_parse by simp
  show ?thesis
    using showControlHandles_effect(1)[OF q l] showControlHandles_fresh(3,6)[OF elbow_parse]
    by simp
qed

subsection \<open>Dragging a handle\<close>

lemma querySelector_setAttribute_d:
  "querySelector elements recordId = Some d \<Longrightarrow>
   querySelector (setAttribute_d recordId v elements) recordId = Some v"
  unfolding querySelector_def
  by (induction elements) (auto split: if_splits)

lemma set_y_two:
  assumes "distinct addrs" "i + 1 < length addrs"
  shows "map (set_y (addrs ! (i + 1)) v (set_y (addrs ! i) v h)) addrs =
         (map h addrs)[i := (h (addrs ! i))\<lparr>pt_y := v\<rparr>, i + 1 := (h (addrs ! (i + 1)))\<lparr>pt_y := v\<rparr>]"
proof (rule nth_equalityI)
  show "length (map (set_y (addrs ! (i + 1)) v (set_y (addrs ! i) v h)) addrs) =
        length ((map h addrs)[i := (h (addrs ! i))\<lparr>pt_y := v\<rparr>, i + 1 := (h (addrs ! (i + 1)))\<lparr>pt_y := v\<rparr>])"
    by simp
next
  fix j assume "j < length (map (set_y (addrs ! (i + 1)) v (set_y (addrs ! i) v h)) addrs)"
  then have j: "j < length addrs" by simp
  have d: "addrs ! a = addrs ! b \<longleftrightarrow> a = b" if "a < length addrs" "b < length addrs" for a b
    using assms(1) that by (simp add: nth_eq_iff_index_eq)
  have i: "i < length addrs" using assms(2) by simp
  consider "j = i" | "j = i + 1" | "j \<noteq> i" "j \<noteq> i + 1" by blast
  then show "map (set_y (addrs ! (i + 1)) v (set_y (addrs ! i) v h)) addrs ! j =
        (map h addrs)[i := (h (addrs ! i))\<lparr>pt_y := v\<rparr>, i + 1 := (h (addrs ! (i + 1)))\<lparr>pt_y := v\<rparr>] ! j"
  proof cases
    case 1
    then show ?thesis using j assms(2) d[OF i assms(2)] by (simp add: set_y_def)
  next
    case 2
    then show ?thesis using j d[OF assms(2) i] by (simp add: set_y_def)
  next
    case 3
    then show ?thesis using j d[OF j i] d[OF j assms(2)] by (simp add: set_y_def)
  qed
qed

lemma set_x_two:
  assumes "distinct addrs" "i + 1 < length addrs"
  shows "map (set_x (addrs ! (i + 1)) v (set_x (addrs ! i) v h)) addrs =
         (map h addrs)[i := (h (addrs ! i))\<lparr>pt_x := v\<rparr>, i + 1 := (h (addrs ! (i + 1)))\<lparr>pt_x := v\<rparr>]"
proof (rule nth_equalityI)
  show "length (map (set_x (addrs ! (i + 1)) v (set_x (addrs ! i) v h)) addrs) =
        length ((map h addrs)[i := (h (addrs ! i))\<lparr>pt_x := v\<rparr>, i + 1 := (h (addrs ! (i + 1)))\<lparr>pt_x := v\<rparr>])"
    by simp
next
  fix j assume "j < length (map (set_x (addrs ! (i + 1)) v (set_x (addrs ! i) v h)) addrs)"
  then have j: "j < length addrs" by simp
  have d: "addrs ! a = addrs ! b \<longleftrightarrow> a = b" if "a < length addrs" "b < length addrs" for a b
    using assms(1) that by (simp add: nth_eq_iff_index_eq)
  have i: "i < length addrs" using assms(2) by simp
  consider "j = i" | "j = i + 1" | "j \<noteq> i" "j \<noteq> i + 1" by blast
  then show "map (set_x (addrs ! (i + 1)) v (set_x (addrs ! i) v h)) addrs ! j =
        (map h addrs)[i := (h (addrs ! i))\<lparr>pt_x := v\<rparr>, i + 1 := (h (addrs ! (i + 1)))\<lparr>pt_x := v\<rparr>] ! j"
  proof cases
    case 1
    then show ?thesis using j assms(2) d[OF i assms(2)] by (simp add: set_x_def)
  next
    case 2
    then show ?thesis using j d[OF assms(2) i] by (simp add: set_x_def)
  next
    case 3
    then show ?thesis using j d[OF j i] d[OF j assms(2)] by (simp add: set_x_def)
  qed
qed

lemma updateConnectionPath_in_range:
  assumes "originalPathPoints s = Some addrs"
    and "querySelector (connectionsGroup s) recordId = Some d"
    and "0 \<le> segmentIndex" "nat segmentIndex + 1 < length addrs"
  shows "updateConnectionPath recordId segmentIndex newX newY isHorizontal isVertical s =
    s\<lparr>heap :=
         (if isHorizontal then
            set_y (addrs ! (nat segmentIndex + 1)) newY (set_y (addrs ! nat segmentIndex) newY (heap s))
          else if isVertical then
            set_x (addrs ! (nat segmentIndex + 1)) newX (set_x (addrs ! nat segmentIndex) newX (heap s))
          else heap s),
       connectionsGroup :=
         setAttribute_d recordId
           (generatePathFromPoints
              (map (if isHorizontal then
                      set_y (addrs ! (nat segmentIndex + 1)) newY (set_y (addrs ! nat segmentIndex) newY (heap s))
                    else if isVertical then
                      set_x (addrs ! (nat segmentIndex + 1)) newX (set_x (addrs ! nat segmentIndex) newX (heap s))
                    else heap s) addrs))
           (connectionsGroup s)\<rparr>"
proof -
  have r: "segmentIndex < int (length addrs) - 1" using assms(3,4) by linarith
  show ?thesis
    unfolding updateConnectionPath_def assms(1,2) using assms(3) r
    by (simp add: Let_def)
qed





lemma updateConnectionPath_points:
  assumes "originalPathPoints s = Some addrs" "distinct addrs"
    and "querySelector (connectionsGroup s) recordId = Some d"
    and "0 \<le> segmentIndex" "nat segmentIndex + 1 < length addrs"
    and "ps = map (heap s) addrs"
    and "s' = updateConnectionPath recordId segmentIndex newX newY isHorizontal isVertical s"
    and "ps' = map (heap s') addrs"
    and "i = nat segmentIndex"
  shows "ps' = (if isHorizontal then ps[i := (ps ! i)\<lparr>pt_y := newY\<rparr>, i + 1 := (ps ! (i + 1))\<lparr>pt_y := newY\<rparr>]
               else if isVertical then ps[i := (ps ! i)\<lparr>pt_x := newX\<rparr>, i + 1 := (ps ! (i + 1))\<lparr>pt_x := newX\<rparr>]
               else ps)"
    and "originalPathPoints s' = Some addrs"
    and "querySelector (connectionsGroup s') recordId = Some (generatePathFromPoints ps')"
proof -
  note u = updateConnectionPath_in_range[OF assms(1,3,4,5), of newX newY isHorizontal isVertical]
  have il: "i + 1 < length addrs" "i < length addrs" "i + 1 < length ps"
    using assms(5,6,9) by simp_all
  have nth: "heap s (addrs ! i) = ps ! i" "heap s (addrs ! (i + 1)) = ps ! (i + 1)"
    using il assms(6) by simp_all
  show "ps' = (if isHorizontal then ps[i := (ps ! i)\<lparr>pt_y := newY\<rparr>, i + 1 := (ps ! (i + 1))\<lparr>pt_y := newY\<rparr>]
               else if isVertical then ps[i := (ps ! i)\<lparr>pt_x := newX\<rparr>, i + 1 := (ps ! (i + 1))\<lparr>pt_x := newX\<rparr>]
               else ps)"
    unfolding assms(8) assms(7) u
    using set_y_two[OF assms(2) il(1), of newY "heap s"] set_x_two[OF assms(2) il(1), of newX "heap s"]
      nth assms(6,9)
    by simp
  show "originalPathPoints s' = Some addrs"
    unfolding assms(7) u using assms(1) by simp
  have hs: "heap s' =
         (if isHorizontal then
            set_y (addrs ! (nat segmentIndex + 1)) newY (set_y (addrs ! nat segmentIndex) newY (heap s))
          else if isVertical then
            set_x (addrs ! (nat segmentIndex + 1)) newX (set_x (addrs ! nat segmentIndex) newX (heap s))
          else heap s)"
    unfolding assms(7) u by simp
  have "connectionsGroup s' =
          setAttribute_d recordId (generatePathFromPoints (map (heap s') addrs)) (connectionsGroup s)"
    unfolding hs unfolding assms(7) u by simp
  then show "querySelector (connectionsGroup s') recordId = Some (generatePathFromPoints ps')"
    using querySelector_setAttribute_d[OF assms(3)] assms(8) by simp
qed

subsection \<open>The example drags\<close>

lemma upt_length_4: "[0 ..< length [a, b, c, d]] = [0, 1, 2, 3]"
  by (simp add: upt_rec)





text \<open>
  Claim C5 fails on the code: the working copy \<open>[...this.originalPathPoints]\<close> shares its
  point objects with the cached baseline, so the assignments of \<open>updateConnectionPath\<close>
  change the baseline. Dragging the vertical segment of the default path from \<open>x = 50\<close> to
  \<open>x = 70\<close> leaves the cached array the same list of objects, and these now hold the
  dragged path.
\<close>

theorem updateConnectionPath_mutates_baseline:
  "baseline_points elbow_adjuster =
     Some [\<lparr>pt_x = js_int 0, pt_y = js_int 0\<rparr>, \<lparr>pt_x = js_int 50, pt_y = js_int 0\<rparr>,
           \<lparr>pt_x = js_int 50, pt_y = js_int 50\<rparr>, \<lparr>pt_x = js_int 100, pt_y = js_int 50\<rparr>] \<and>
   originalPathPoints
     (updateConnectionPath ''r1'' 1 (js_int 70) (js_int 25) False True elbow_adjuster) =
     originalPathPoints elbow_adjuster \<and>
   baseline_points
     (updateConnectionPath ''r1'' 1 (js_int 70) (js_int 25) False True elbow_adjuster) =
     Some [\<lparr>pt_x = js_int 0, pt_y = js_int 0\<rparr>, \<lparr>pt_x = js_int 70, pt_y = js_int 0\<rparr>,
           \<lparr>pt_x = js_int 70, pt_y = js_int 50\<rparr>, \<lparr>pt_x = js_int 100, pt_y = js_int 50\<rparr>]"
proof -
  let ?ps = "[\<lparr>pt_x = js_int 0, pt_y = js_int 0\<rparr>, \<lparr>pt_x = js_int 50, pt_y = js_int 0\<rparr>,
              \<lparr>pt_x = js_int 50, pt_y = js_int 50\<rparr>, \<lparr>pt_x = js_int 100, pt_y = js_int 50\<rparr>]"
  let ?s' = "updateConnectionPath ''r1'' 1 (js_int 70) (js_int 25) False True elbow_adjuster"
  have l: "2 \<le> length ?ps" by simp
  note f = showControlHandles_fresh[OF elbow_parse l, where rid = "''r1''", folded elbow_adjuster_def,
      unfolded upt_length_4]
  have a2: "distinct [0, 1, 2, 3 :: nat]" by simp
  have a4: "(0 :: int) \<le> 1" by simp
  have a5: "nat 1 + 1 < length [0, 1, 2, 3 :: nat]" by simp
  have a9: "(1 :: nat) = nat 1" by simp
  note u = updateConnectionPath_points[OF f(1) a2 f(5) a4 a5 f(2)[symmetric] refl refl a9,
      of "js_int 70" "js_int 25" False True]
  have r: "map (heap ?s') [0, 1, 2, 3] =
     [\<lparr>pt_x = js_int 0, pt_y = js_int 0\<rparr>, \<lparr>pt_x = js_int 70, pt_y = js_int 0\<rparr>,
      \<lparr>pt_x = js_int 70, pt_y = js_int 50\<rparr>, \<lparr>pt_x = js_int 100, pt_y = js_int 50\<rparr>]"
    unfolding u(1) by simp
  have b: "baseline_points ?s' =
     Some [\<lparr>pt_x = js_int 0, pt_y = js_int 0\<rparr>, \<lparr>pt_x = js_int 70, pt_y = js_int 0\<rparr>,
           \<lparr>pt_x = js_int 70, pt_y = js_int 50\<rparr>, \<lparr>pt_x = js_int 100, pt_y = js_int 50\<rparr>]"
    unfolding baseline_points_def u(2) using r by simp
  show ?thesis using f(3) f(1) u(2) b by simp
qed




end
